theory Spec2Isabelle
  imports Complex_Main "HOL-Library.Word"
begin

unbundle bit_operations_syntax

section \<open>Hierarchical path estimator (rts/Sim/Path/Default/PathEstimator.cpp)\<close>

text \<open>
  Conventions of the embedding.
  \<^item> C++ \<open>int\<close> and \<open>unsigned int\<close> values are modelled as \<open>int\<close>: block and square
    coordinates, indices and counts stay far below \<open>2^31\<close> on any map. The places where
    the source relies on the unsigned reading of a possibly negative value (the bounds
    checks of \<open>CalculateVertex\<close> and \<open>TestBlock\<close>, the vertex index of \<open>TestBlock\<close>, the
    squares handed to \<open>IsGoal\<close>) go through \<open>unsigned_cast\<close>, which writes the
    wrap-around out.
  \<^item> The node mask is a byte (\<open>8 word\<close>).
  \<^item> Arrays are total stores (functions from the index); the deque \<open>updatedBlocks\<close> and
    the open set are lists.
  \<^item> Search and vertex costs (C++ \<open>float\<close>) range over an arbitrary linearly ordered
    type with an addition, so nothing proved about them depends on rounding; the sentinel
    \<open>PATHCOST_INFINITY\<close> is a parameter. The \<open>float\<close> arithmetic inside \<open>FindOffset\<close> and
    in the budget of \<open>Update\<close> is modelled in the reals.
  \<^item> What the source reads from other files (terrain queries, the fine path finder, the
    goal definition, the move classes, constants without a value in the sources) is a
    field of the environment record or of the goal record.
\<close>

subsection \<open>Constants and index arithmetic\<close>

type_synonym int2 = "int \<times> int"

definition int2_add :: "int2 \<Rightarrow> int2 \<Rightarrow> int2" where
  "int2_add a b = (fst a + fst b, snd a + snd b)"

text \<open>The value of a C++ \<open>int\<close> read as \<open>unsigned int\<close> (32 bits).\<close>

definition unsigned_cast :: "int \<Rightarrow> int" where
  "unsigned_cast v = v mod 2 ^ 32"

text \<open>Modelled from the spec: the direction indices, "Directions are indexed {LEFT=0, LEFT_UP,
  UP, RIGHT_UP, RIGHT, RIGHT_DOWN, DOWN, LEFT_DOWN}", of which "only the first four are
  stored per block" (PathConstants.h is not among the sources).\<close>

definition PATHDIR_LEFT :: int where "PATHDIR_LEFT = 0"
definition PATHDIR_LEFT_UP :: int where "PATHDIR_LEFT_UP = 1"
definition PATHDIR_UP :: int where "PATHDIR_UP = 2"
definition PATHDIR_RIGHT_UP :: int where "PATHDIR_RIGHT_UP = 3"
definition PATHDIR_RIGHT :: int where "PATHDIR_RIGHT = 4"
definition PATHDIR_RIGHT_DOWN :: int where "PATHDIR_RIGHT_DOWN = 5"
definition PATHDIR_DOWN :: int where "PATHDIR_DOWN = 6"
definition PATHDIR_LEFT_DOWN :: int where "PATHDIR_LEFT_DOWN = 7"
definition PATH_DIRECTION_VERTICES :: int where "PATH_DIRECTION_VERTICES = 4"

lemmas PATHDIR_defs =
  PATHDIR_LEFT_def PATHDIR_LEFT_UP_def PATHDIR_UP_def PATHDIR_RIGHT_UP_def
  PATHDIR_RIGHT_def PATHDIR_RIGHT_DOWN_def PATHDIR_DOWN_def PATHDIR_LEFT_DOWN_def
  PATH_DIRECTION_VERTICES_def

text \<open>Modelled from the spec: the step \<open>\<Delta>(d)\<close> of each direction (the table
  \<open>PE_DIRECTION_VECTORS\<close> of PathConstants.h is not among the sources). LEFT is the step
  \<open>+x\<close>, UP the step \<open>+z\<close>; a direction and its opposite have negated steps.\<close>

definition PE_DIRECTION_VECTORS :: "int \<Rightarrow> int2" where
  "PE_DIRECTION_VECTORS d =
     [(1, 0), (1, 1), (0, 1), (- 1, 1), (- 1, 0), (- 1, - 1), (0, - 1), (1, - 1)] ! nat d"

text \<open>Modelled from the spec: \<open>opposite(d)\<close>, the direction with the negated step.\<close>

definition opposite :: "int \<Rightarrow> int" where
  "opposite d = (if d < 4 then d + 4 else d - 4)"

text \<open>Modelled from the spec: "\<open>block_pos_to_idx(bx, bz) = bz * nx + bx\<close>"
  (\<open>BlockPosToIdx\<close> of IPathFinder.h is not among the sources).\<close>

definition BlockPosToIdx :: "int \<Rightarrow> int2 \<Rightarrow> int" where
  "BlockPosToIdx nx pos = snd pos * nx + fst pos"

text \<open>Modelled from the spec: "\<open>vertex_offset(dir, nx)\<close> returns the linear offset to apply
  to a block index to reach the storing block, and substitutes the opposite direction"
  (\<open>GetBlockVertexOffset\<close> of IPathFinder.h is not among the sources). The offset is in
  units of vertex slots (\<open>PATH_DIRECTION_VERTICES\<close> per block) and is returned as an
  \<open>unsigned int\<close>.\<close>

definition GetBlockVertexOffset :: "int \<Rightarrow> int \<Rightarrow> int" where
  "GetBlockVertexOffset pathDir numBlocks = unsigned_cast
     (if pathDir = PATHDIR_RIGHT then
        PATHDIR_LEFT - PATH_DIRECTION_VERTICES
      else if pathDir = PATHDIR_RIGHT_DOWN then
        PATHDIR_LEFT_UP - numBlocks * PATH_DIRECTION_VERTICES - PATH_DIRECTION_VERTICES
      else if pathDir = PATHDIR_DOWN then
        PATHDIR_UP - numBlocks * PATH_DIRECTION_VERTICES
      else if pathDir = PATHDIR_LEFT_DOWN then
        PATHDIR_RIGHT_UP - numBlocks * PATH_DIRECTION_VERTICES + PATH_DIRECTION_VERTICES
      else pathDir)"

text \<open>Modelled from the spec: the node-mask flags, "bit set over {OPEN, CLOSED, BLOCKED,
  OBSOLETE, CARDINAL_DIR_BITS}" (PathConstants.h is not among the sources). The flags are
  distinct single bits above the four low bits \<open>PATHOPT_CARDINALS\<close>, which hold the
  arrival direction; the proofs use nothing else of the values.\<close>

definition PATHOPT_CARDINALS :: "8 word" where "PATHOPT_CARDINALS = 15"
definition PATHOPT_OPEN :: "8 word" where "PATHOPT_OPEN = 16"
definition PATHOPT_CLOSED :: "8 word" where "PATHOPT_CLOSED = 32"
definition PATHOPT_BLOCKED :: "8 word" where "PATHOPT_BLOCKED = 64"
definition PATHOPT_OBSOLETE :: "8 word" where "PATHOPT_OBSOLETE = 128"

lemmas PATHOPT_defs =
  PATHOPT_CARDINALS_def PATHOPT_OPEN_def PATHOPT_CLOSED_def PATHOPT_BLOCKED_def
  PATHOPT_OBSOLETE_def

subsection \<open>Data model\<close>

record MoveDef =
  pathType :: int
  udRefCount :: int

text \<open>Modelled from the spec: \<open>IPath::SearchResult\<close> (IPath.h is not among the sources).
  The source names \<open>Ok\<close>, \<open>GoalOutOfRange\<close> and \<open>Error\<close>; \<open>CantGetCloser\<close> is the remaining
  result the fine path finder may return.\<close>

datatype SearchResult = Ok | CantGetCloser | GoalOutOfRange | Error

text \<open>The collaborators and constants the estimator reads. The terrain queries are those
  of \<open>CMoveMath\<close>; \<open>IsBlocked_STRUCTURE md sq\<close> says whether \<open>CMoveMath::IsBlocked\<close> at
  the world position of square \<open>sq\<close> reports \<open>BLOCK_STRUCTURE\<close>; \<open>GoalIsBlocked md start goal\<close>
  is \<open>pfDef.GoalIsBlocked\<close> of the rectangular constraint built from the two squares;
  \<open>GetPath md start goal\<close> is the fine path finder run under that constraint, returning
  its result and the cost of the path it found. \<open>moveDefs\<close> lists the move classes of
  \<open>moveDefHandler\<close>: its length is \<open>GetNumMoveDefs()\<close> and its \<open>i\<close>-th element is
  \<open>GetMoveDefByPathType(i)\<close>.\<close>

record 'c Env =
  BLOCK_SIZE :: int
  nbrOfBlocks :: int2
  SQUARE_SIZE :: int
  SQUARES_TO_UPDATE :: int
  PATHCOST_INFINITY :: 'c
  pfUpdateRate :: real
  moveDefs :: "MoveDef list"
  GetPosSpeedMod :: "MoveDef \<Rightarrow> int \<Rightarrow> int \<Rightarrow> real"
  IsBlockedStructure :: "MoveDef \<Rightarrow> int \<Rightarrow> int \<Rightarrow> bool"
  IsBlockedStructureXmax :: "MoveDef \<Rightarrow> int \<Rightarrow> int \<Rightarrow> bool"
  IsBlockedStructureZmax :: "MoveDef \<Rightarrow> int \<Rightarrow> int \<Rightarrow> bool"
  IsBlocked_STRUCTURE :: "MoveDef \<Rightarrow> int2 \<Rightarrow> bool"
  GoalIsBlocked :: "MoveDef \<Rightarrow> int2 \<Rightarrow> int2 \<Rightarrow> bool"
  GetPath :: "MoveDef \<Rightarrow> int2 \<Rightarrow> int2 \<Rightarrow> SearchResult \<times> 'c"
  GetFlowCost :: "int \<Rightarrow> int \<Rightarrow> MoveDef \<Rightarrow> int \<Rightarrow> 'c"
  GetNodeExtraCost :: "int \<Rightarrow> int \<Rightarrow> bool \<Rightarrow> 'c"

record 'c PathNode =
  fCost :: 'c
  gCost :: 'c
  nodePos :: int2
  nodeNum :: int

text \<open>The mutable state of a \<open>CPathEstimator\<close>. The arrays of \<open>blockStates\<close> are the
  fields \<open>blockStates_*\<close>; \<open>openBlocks\<close> lists the queued nodes in insertion order;
  \<open>updatedBlocks\<close> is the deque of obsolete blocks, front first.\<close>

record 'c CPathEstimator =
  blockStates_nodeMask :: "int \<Rightarrow> 8 word"
  blockStates_fCost :: "int \<Rightarrow> 'c"
  blockStates_gCost :: "int \<Rightarrow> 'c"
  blockStates_peParentNodePos :: "int \<Rightarrow> int2"
  blockStates_peNodeOffsets :: "int \<Rightarrow> int \<Rightarrow> int2"
  blockStates_maxCostF :: 'c
  blockStates_maxCostG :: 'c
  vertexCosts :: "int \<Rightarrow> 'c"
  updatedBlocks :: "int2 list"
  blockUpdatePenalty :: int
  openBlocks :: "'c PathNode list"
  openBlockBuffer_size :: nat
  maxBlocksToBeSearched :: nat
  dirtyBlocks :: "int list"
  mGoalBlockIdx :: int
  mGoalHeuristic :: 'c
  testedBlocks :: nat

text \<open>Modelled from the spec: \<open>blockStates.GetSize()\<close>, the number of blocks \<open>nx * ny\<close>.\<close>

definition GetSize :: "'c Env \<Rightarrow> int" where
  "GetSize env = fst (nbrOfBlocks env) * snd (nbrOfBlocks env)"

text \<open>The bounds check of \<open>CalculateVertex\<close> and \<open>TestBlock\<close>:
  \<open>(unsigned)block.x >= nbrOfBlocks.x || (unsigned)block.y >= nbrOfBlocks.y\<close>.\<close>

definition outside_map :: "'c Env \<Rightarrow> int2 \<Rightarrow> bool" where
  "outside_map env block \<longleftrightarrow>
     unsigned_cast (fst block) \<ge> fst (nbrOfBlocks env) \<or>
     unsigned_cast (snd block) \<ge> snd (nbrOfBlocks env)"

subsection \<open>Vertex costs: \<open>CalculateVertex\<close>, \<open>CalculateVertices\<close>\<close>

text \<open>The slot \<open>vertexNbr\<close> that \<open>CalculateVertex\<close> writes.\<close>

definition vertexNbr :: "'c Env \<Rightarrow> MoveDef \<Rightarrow> int \<Rightarrow> int \<Rightarrow> int" where
  "vertexNbr env moveDef parentBlockNbr direction = unsigned_cast
     (pathType moveDef * GetSize env * PATH_DIRECTION_VERTICES +
      parentBlockNbr * PATH_DIRECTION_VERTICES +
      direction)"

definition CalculateVertex ::
  "'c Env \<Rightarrow> MoveDef \<Rightarrow> int2 \<Rightarrow> int \<Rightarrow> 'c CPathEstimator \<Rightarrow> 'c CPathEstimator" where
  "CalculateVertex env moveDef parentBlock direction s =
     (let childBlock = int2_add parentBlock (PE_DIRECTION_VECTORS direction);
          parentBlockNbr = BlockPosToIdx (fst (nbrOfBlocks env)) parentBlock;
          childBlockNbr = BlockPosToIdx (fst (nbrOfBlocks env)) childBlock;
          vnbr = vertexNbr env moveDef parentBlockNbr direction
      in if outside_map env childBlock then
           s\<lparr>vertexCosts := (vertexCosts s)(vnbr := PATHCOST_INFINITY env)\<rparr>
         else
           let parentSquare = blockStates_peNodeOffsets s parentBlockNbr (pathType moveDef);
               childSquare = blockStates_peNodeOffsets s childBlockNbr (pathType moveDef);
               strtBlocked = IsBlocked_STRUCTURE env moveDef parentSquare;
               goalBlocked = GoalIsBlocked env moveDef parentSquare childSquare
           in if strtBlocked \<or> goalBlocked then
                s\<lparr>vertexCosts := (vertexCosts s)(vnbr := PATHCOST_INFINITY env)\<rparr>
              else
                (case GetPath env moveDef parentSquare childSquare of
                   (result, pathCost) \<Rightarrow>
                     if result = Ok then
                       s\<lparr>vertexCosts := (vertexCosts s)(vnbr := pathCost)\<rparr>
                     else
                       s\<lparr>vertexCosts := (vertexCosts s)(vnbr := PATHCOST_INFINITY env)\<rparr>))"

definition CalculateVertices ::
  "'c Env \<Rightarrow> MoveDef \<Rightarrow> int2 \<Rightarrow> 'c CPathEstimator \<Rightarrow> 'c CPathEstimator" where
  "CalculateVertices env moveDef block s =
     CalculateVertex env moveDef block PATHDIR_RIGHT_UP
       (CalculateVertex env moveDef block PATHDIR_UP
         (CalculateVertex env moveDef block PATHDIR_LEFT_UP
           (CalculateVertex env moveDef block PATHDIR_LEFT s)))"

text \<open>The slot \<open>vertexIdx\<close> that \<open>TestBlock\<close> reads for a parent node and a direction of
  travel, and the lookup itself.\<close>

definition vertexIdx :: "'c Env \<Rightarrow> MoveDef \<Rightarrow> int \<Rightarrow> int \<Rightarrow> int" where
  "vertexIdx env moveDef parentNodeNum pathDir = unsigned_cast
     (pathType moveDef * GetSize env * PATH_DIRECTION_VERTICES +
      parentNodeNum * PATH_DIRECTION_VERTICES +
      GetBlockVertexOffset pathDir (fst (nbrOfBlocks env)))"

definition vertex_cost :: "'c Env \<Rightarrow> 'c CPathEstimator \<Rightarrow> MoveDef \<Rightarrow> int2 \<Rightarrow> int \<Rightarrow> 'c" where
  "vertex_cost env s moveDef block pathDir =
     vertexCosts s (vertexIdx env moveDef (BlockPosToIdx (fst (nbrOfBlocks env)) block) pathDir)"

subsection \<open>Offset finder: \<open>FindOffset\<close>\<close>

text \<open>The local variables of \<open>FindOffset\<close> that its loops update. Its \<open>float\<close> values are
  modelled as reals (rounding is not modelled).\<close>

record FindOffsetVars =
  bestCost :: real
  bestPosX :: int
  bestPosZ :: int
  speedMod :: real
  curblock :: bool

text \<open>\<open>std::numeric_limits<float>::max()\<close>.\<close>

definition FLT_MAX :: real where
  "FLT_MAX = (2 ^ 24 - 1) * 2 ^ 104"

text \<open>The body of the inner loop (lines 243-259) at local offset \<open>(x, z)\<close>.\<close>

definition FindOffset_x ::
  "'c Env \<Rightarrow> MoveDef \<Rightarrow> int \<Rightarrow> int \<Rightarrow> int \<Rightarrow> int \<Rightarrow> int \<Rightarrow> FindOffsetVars \<Rightarrow> FindOffsetVars" where
  "FindOffset_x env moveDef lowerX lowerZ blockArea z x v =
     (let v1 =
            (if \<not> curblock v then
               let dx = real_of_int x - real_of_int (BLOCK_SIZE env - 1) / 2;
                   dz = real_of_int z - real_of_int (BLOCK_SIZE env - 1) / 2;
                   cost = (dx * dx + dz * dz) + (real_of_int blockArea / (0.001 + speedMod v))
               in if cost < bestCost v
                  then v\<lparr>bestCost := cost, bestPosX := x, bestPosZ := z\<rparr>
                  else v
             else v);
          sm = GetPosSpeedMod env moveDef (lowerX + x) (lowerZ + z)
      in v1\<lparr>speedMod := sm,
             curblock := (sm = 0) \<or>
               (if curblock v
                then IsBlockedStructure env moveDef (lowerX + x) (lowerZ + z)
                else IsBlockedStructureXmax env moveDef (lowerX + x) (lowerZ + z))\<rparr>)"

text \<open>The body of the outer loop (lines 240-265) at row \<open>z\<close>.\<close>

definition FindOffset_z ::
  "'c Env \<Rightarrow> MoveDef \<Rightarrow> int \<Rightarrow> int \<Rightarrow> int \<Rightarrow> int \<Rightarrow> FindOffsetVars \<Rightarrow> FindOffsetVars" where
  "FindOffset_z env moveDef lowerX lowerZ blockArea z v =
     (let zcurblock = curblock v;
          v1 = fold (FindOffset_x env moveDef lowerX lowerZ blockArea z)
                 [0..BLOCK_SIZE env - 1] v;
          sm = GetPosSpeedMod env moveDef lowerX (lowerZ + z)
      in v1\<lparr>speedMod := sm,
             curblock := (sm = 0) \<or>
               (if zcurblock
                then IsBlockedStructure env moveDef lowerX (lowerZ + z)
                else IsBlockedStructureZmax env moveDef lowerX (lowerZ + z))\<rparr>)"

definition FindOffset :: "'c Env \<Rightarrow> MoveDef \<Rightarrow> int \<Rightarrow> int \<Rightarrow> int2" where
  "FindOffset env moveDef blockX blockZ =
     (let lowerX = blockX * BLOCK_SIZE env;
          lowerZ = blockZ * BLOCK_SIZE env;
          blockArea = (BLOCK_SIZE env * BLOCK_SIZE env) div SQUARE_SIZE env;
          sm = GetPosSpeedMod env moveDef lowerX lowerZ;
          v0 = \<lparr>bestCost = FLT_MAX,
                bestPosX = drop_bit 1 (BLOCK_SIZE env),
                bestPosZ = drop_bit 1 (BLOCK_SIZE env),
                speedMod = sm,
                curblock = (sm = 0) \<or> IsBlockedStructure env moveDef lowerX lowerZ\<rparr>;
          v = fold (FindOffset_z env moveDef lowerX lowerZ blockArea) [0..BLOCK_SIZE env - 1] v0
      in (blockX * BLOCK_SIZE env + bestPosX v, blockZ * BLOCK_SIZE env + bestPosZ v))"

text \<open>The offset finder as the specification words it (section 4.C): every square of the
  block is visited row by row; a square is blocked when its own speed modifier is zero or
  a structure occupies it; a non-blocked square is scored with its own speed modifier; a
  strictly lower score replaces the best one; with no candidate the block centre stays.\<close>

definition square_blocked :: "'c Env \<Rightarrow> MoveDef \<Rightarrow> int \<Rightarrow> int \<Rightarrow> bool" where
  "square_blocked env moveDef sx sz \<longleftrightarrow>
     GetPosSpeedMod env moveDef sx sz = 0 \<or> IsBlockedStructure env moveDef sx sz"

definition spec_score :: "'c Env \<Rightarrow> MoveDef \<Rightarrow> int \<Rightarrow> int \<Rightarrow> int \<Rightarrow> int \<Rightarrow> real" where
  "spec_score env moveDef lowerX lowerZ x z =
     (real_of_int x - real_of_int (BLOCK_SIZE env - 1) / 2) ^ 2 +
     (real_of_int z - real_of_int (BLOCK_SIZE env - 1) / 2) ^ 2 +
     real_of_int ((BLOCK_SIZE env * BLOCK_SIZE env) div SQUARE_SIZE env) /
       (0.001 + GetPosSpeedMod env moveDef (lowerX + x) (lowerZ + z))"

definition spec_FindOffset_sq ::
  "'c Env \<Rightarrow> MoveDef \<Rightarrow> int \<Rightarrow> int \<Rightarrow> int2 \<Rightarrow> (real \<times> int2) option \<Rightarrow> (real \<times> int2) option" where
  "spec_FindOffset_sq env moveDef lowerX lowerZ sq best =
     (if square_blocked env moveDef (lowerX + fst sq) (lowerZ + snd sq) then best
      else
        let c = spec_score env moveDef lowerX lowerZ (fst sq) (snd sq)
        in (case best of
              None \<Rightarrow> Some (c, sq)
            | Some (bc, bsq) \<Rightarrow> if c < bc then Some (c, sq) else best))"

definition spec_FindOffset :: "'c Env \<Rightarrow> MoveDef \<Rightarrow> int \<Rightarrow> int \<Rightarrow> int2" where
  "spec_FindOffset env moveDef blockX blockZ =
     (let lowerX = blockX * BLOCK_SIZE env;
          lowerZ = blockZ * BLOCK_SIZE env;
          squares = concat (map (\<lambda>z. map (\<lambda>x. (x, z)) [0..BLOCK_SIZE env - 1])
                               [0..BLOCK_SIZE env - 1])
      in (case fold (spec_FindOffset_sq env moveDef lowerX lowerZ) squares None of
            None \<Rightarrow> (lowerX + drop_bit 1 (BLOCK_SIZE env), lowerZ + drop_bit 1 (BLOCK_SIZE env))
          | Some (c, sq) \<Rightarrow> (lowerX + fst sq, lowerZ + snd sq)))"

subsection \<open>Update budget\<close>

text \<open>Modelled from the spec: \<open>Clamp\<close> (System/myMath.h is not among the sources),
  "clamped to [lo, hi]".\<close>

definition Clamp :: "int \<Rightarrow> int \<Rightarrow> int \<Rightarrow> int" where
  "Clamp v lo hi = min hi (max lo v)"

text \<open>Constructor: \<open>BLOCKS_TO_UPDATE(SQUARES_TO_UPDATE / (BLOCK_SIZE * BLOCK_SIZE) + 1)\<close>.
  The constant \<open>SQUARES_TO_UPDATE\<close> is a parameter.\<close>

definition BLOCKS_TO_UPDATE :: "int \<Rightarrow> int \<Rightarrow> int" where
  "BLOCKS_TO_UPDATE squares_to_update block_size =
     squares_to_update div (block_size * block_size) + 1"

text \<open>\<open>Update\<close>, lines 396-398: the two bounds and the clamped budget.\<close>

definition MIN_BLOCKS_TO_UPDATE :: "int \<Rightarrow> int" where
  "MIN_BLOCKS_TO_UPDATE btu = max (drop_bit 1 btu) 4"

definition MAX_BLOCKS_TO_UPDATE :: "int \<Rightarrow> int" where
  "MAX_BLOCKS_TO_UPDATE btu = max (push_bit 1 btu) (MIN_BLOCKS_TO_UPDATE btu)"

definition blocksToUpdate_clamped :: "int \<Rightarrow> int \<Rightarrow> int" where
  "blocksToUpdate_clamped progressiveUpdates btu =
     Clamp progressiveUpdates (MIN_BLOCKS_TO_UPDATE btu) (MAX_BLOCKS_TO_UPDATE btu)"

text \<open>Conversion of a \<open>float\<close> to \<open>int\<close> (truncation towards zero).\<close>

definition float_to_int :: "real \<Rightarrow> int" where
  "float_to_int r = (if 0 \<le> r then \<lfloor>r\<rfloor> else \<lceil>r\<rceil>)"

text \<open>Line 395: the progressive estimate. The source forms the product in single
  precision with the factor \<open>0.6f\<close>; here it is computed in exact reals (rounding is not
  modelled), then truncated as the conversion to \<open>int\<close> does.\<close>

definition progressiveUpdates :: "'c Env \<Rightarrow> 'c CPathEstimator \<Rightarrow> int" where
  "progressiveUpdates env s = float_to_int
     (real (length (updatedBlocks s) * length (moveDefs env)) *
      (if BLOCK_SIZE env \<ge> 16 then 1 else 0.6) * pfUpdateRate env)"

subsection \<open>Incremental update: \<open>MapChanged\<close>, \<open>Update\<close>\<close>

text \<open>The body of the loops of \<open>MapChanged\<close> (lines 370-375) for the block \<open>pos\<close>.\<close>

definition MapChanged_block :: "'c Env \<Rightarrow> int2 \<Rightarrow> 'c CPathEstimator \<Rightarrow> 'c CPathEstimator" where
  "MapChanged_block env pos s =
     (let idx = BlockPosToIdx (fst (nbrOfBlocks env)) pos
      in if blockStates_nodeMask s idx AND PATHOPT_OBSOLETE \<noteq> 0 then s
         else s\<lparr>updatedBlocks := updatedBlocks s @ [pos],
                blockStates_nodeMask :=
                  (blockStates_nodeMask s)(idx := blockStates_nodeMask s idx OR PATHOPT_OBSOLETE)\<rparr>)"

definition MapChanged ::
  "'c Env \<Rightarrow> int \<Rightarrow> int \<Rightarrow> int \<Rightarrow> int \<Rightarrow> 'c CPathEstimator \<Rightarrow> 'c CPathEstimator" where
  "MapChanged env x1 z1 x2 z2 s =
     (let lowerX = Clamp (min x1 x2 div BLOCK_SIZE env) 0 (fst (nbrOfBlocks env) - 1);
          upperX = Clamp (max x1 x2 div BLOCK_SIZE env) 0 (fst (nbrOfBlocks env) - 1);
          lowerZ = Clamp (min z1 z2 div BLOCK_SIZE env) 0 (snd (nbrOfBlocks env) - 1);
          upperZ = Clamp (max z1 z2 div BLOCK_SIZE env) 0 (snd (nbrOfBlocks env) - 1)
      in fold (\<lambda>z. fold (\<lambda>x. MapChanged_block env (x, z)) (rev [lowerX..upperX]))
           (rev [lowerZ..upperZ]) s)"

text \<open>\<open>struct SingleBlock\<close> of \<open>Update\<close> (fields \<open>blockPos\<close>, \<open>moveDef\<close>).\<close>

record SingleBlock =
  sb_blockPos :: int2
  sb_moveDef :: MoveDef

text \<open>Lines 441-445: the entries one block adds to \<open>consumedBlocks\<close>, one per move class
  with a nonzero reference count, in the order of \<open>GetMoveDefByPathType(i)\<close>.\<close>

definition block_entries :: "'c Env \<Rightarrow> int2 \<Rightarrow> SingleBlock list" where
  "block_entries env pos =
     map (\<lambda>md. \<lparr>sb_blockPos = pos, sb_moveDef = md\<rparr>)
       (filter (\<lambda>md. udRefCount md > 0) (moveDefs env))"

text \<open>Lines 426-447: the loop that drains the front of \<open>updatedBlocks\<close>. It returns
  \<open>consumedBlocks\<close> and what is left of the queue.\<close>

fun consume ::
  "'c Env \<Rightarrow> (int \<Rightarrow> 8 word) \<Rightarrow> int \<Rightarrow> int2 list \<Rightarrow> SingleBlock list \<Rightarrow>
     SingleBlock list \<times> int2 list" where
  "consume env nodeMask blocksToUpdate [] consumedBlocks = (consumedBlocks, [])"
| "consume env nodeMask blocksToUpdate (pos # queue) consumedBlocks =
     (if nodeMask (BlockPosToIdx (fst (nbrOfBlocks env)) pos) AND PATHOPT_OBSOLETE = 0 then
        consume env nodeMask blocksToUpdate queue consumedBlocks
      else if int (length consumedBlocks) \<ge> blocksToUpdate then
        (consumedBlocks, pos # queue)
      else
        consume env nodeMask blocksToUpdate queue (consumedBlocks @ block_entries env pos))"

text \<open>Lines 452-458: the body of the \<open>for_mt\<close> loop for one entry, and the loop run in
  index order.\<close>

definition Update_offset :: "'c Env \<Rightarrow> SingleBlock \<Rightarrow> 'c CPathEstimator \<Rightarrow> 'c CPathEstimator" where
  "Update_offset env sb s =
     (let blockN = BlockPosToIdx (fst (nbrOfBlocks env)) (sb_blockPos sb);
          currBlockMD = sb_moveDef sb
      in s\<lparr>blockStates_peNodeOffsets :=
             (blockStates_peNodeOffsets s)(blockN :=
               (blockStates_peNodeOffsets s blockN)(pathType currBlockMD :=
                  FindOffset env currBlockMD (fst (sb_blockPos sb)) (snd (sb_blockPos sb))))\<rparr>)"

definition Update_offsets ::
  "'c Env \<Rightarrow> SingleBlock list \<Rightarrow> 'c CPathEstimator \<Rightarrow> 'c CPathEstimator" where
  "Update_offsets env consumedBlocks s = fold (Update_offset env) consumedBlocks s"

text \<open>Lines 464-480: the serial loop over \<open>consumedBlocks\<close>; the argument is the part of
  the list from index \<open>n\<close> on.\<close>

fun Update_vertices ::
  "'c Env \<Rightarrow> SingleBlock list \<Rightarrow> 'c CPathEstimator \<Rightarrow> 'c CPathEstimator" where
  "Update_vertices env [] s = s"
| "Update_vertices env (sb # rest) s =
     (let blockN = BlockPosToIdx (fst (nbrOfBlocks env)) (sb_blockPos sb);
          currBlockMD = sb_moveDef sb;
          s1 = CalculateVertices env currBlockMD (sb_blockPos sb) s;
          s2 = (if rest = [] \<or> pathType (sb_moveDef (hd rest)) \<le> pathType currBlockMD
                then s1\<lparr>blockStates_nodeMask :=
                          (blockStates_nodeMask s1)(blockN :=
                             blockStates_nodeMask s1 blockN AND NOT PATHOPT_OBSOLETE)\<rparr>
                else s1)
      in Update_vertices env rest s2)"

text \<open>Lines 392-409: the budget of this tick. The result is
  \<open>(blocksToUpdate, consumeBlocks, blockUpdatePenalty)\<close>.\<close>

definition Update_budget :: "'c Env \<Rightarrow> 'c CPathEstimator \<Rightarrow> int \<times> int \<times> int" where
  "Update_budget env s =
     (let numMoveDefs = int (length (moveDefs env));
          btu = BLOCKS_TO_UPDATE (SQUARES_TO_UPDATE env) (BLOCK_SIZE env);
          progressive = progressiveUpdates env s;
          blocksToUpdate0 = blocksToUpdate_clamped progressive btu;
          penalty1 = max 0 (blockUpdatePenalty s - blocksToUpdate0);
          blocksToUpdate =
            (if penalty1 > 0 then max 0 (blocksToUpdate0 - penalty1) else blocksToUpdate0);
          consumeBlocks =
            (if progressive \<noteq> 0 then 1 else 0) *
            \<lceil>real_of_int blocksToUpdate / real_of_int numMoveDefs\<rceil> * numMoveDefs
      in (blocksToUpdate, consumeBlocks, penalty1 + consumeBlocks))"

text \<open>\<open>Update\<close>. The aging of the two result caches (lines 386-387) is left out: it
  touches no state of the model.\<close>

definition Update :: "'c Env \<Rightarrow> 'c CPathEstimator \<Rightarrow> 'c CPathEstimator" where
  "Update env s =
     (case Update_budget env s of (blocksToUpdate, consumeBlocks, penalty) \<Rightarrow>
        let s1 = s\<lparr>blockUpdatePenalty := penalty\<rparr>
        in if blocksToUpdate = 0 then s1
           else if updatedBlocks s1 = [] then s1
           else
             (case consume env (blockStates_nodeMask s1) blocksToUpdate (updatedBlocks s1) [] of
                (consumedBlocks, queue) \<Rightarrow>
                  Update_vertices env consumedBlocks
                    (Update_offsets env consumedBlocks (s1\<lparr>updatedBlocks := queue\<rparr>))))"

text \<open>The blocks a call of \<open>Update\<close> processes: the positions of its \<open>consumedBlocks\<close>.\<close>

definition Update_consumed :: "'c Env \<Rightarrow> 'c CPathEstimator \<Rightarrow> SingleBlock list" where
  "Update_consumed env s =
     (case Update_budget env s of (blocksToUpdate, consumeBlocks, penalty) \<Rightarrow>
        if blocksToUpdate = 0 \<or> updatedBlocks s = [] then []
        else fst (consume env (blockStates_nodeMask s) blocksToUpdate (updatedBlocks s) []))"

subsection \<open>Block search: \<open>TestBlock\<close>, \<open>DoSearch\<close>\<close>

text \<open>The goal definition \<open>peDef\<close> (\<open>CPathFinderDef\<close>), through the four queries the
  search makes.\<close>

record 'c CPathFinderDef =
  IsGoal :: "int \<Rightarrow> int \<Rightarrow> bool"
  Heuristic :: "int \<Rightarrow> int \<Rightarrow> 'c"
  WithinConstraints :: "int \<Rightarrow> int \<Rightarrow> bool"
  GoalSquareOffset :: "int \<Rightarrow> int2"

text \<open>\<open>TestBlock\<close> returns its \<open>bool\<close> and the new state. The unused parameters
  (\<open>owner\<close>, \<open>blockStatus\<close>, \<open>speedMod\<close>, \<open>withinConstraints\<close>) are left out;
  \<open>GetFlowCost\<close> receives the direction index, the conversion \<open>PathDir2PathOpt\<close> being the
  collaborator's. The debug assertions do not change the state and are not modelled.\<close>

definition TestBlock ::
  "'c::{linorder, plus} Env \<Rightarrow> MoveDef \<Rightarrow> 'c CPathFinderDef \<Rightarrow> 'c PathNode \<Rightarrow> int \<Rightarrow> bool \<Rightarrow>
     'c CPathEstimator \<Rightarrow> bool \<times> 'c CPathEstimator" where
  "TestBlock env moveDef peDef parentOpenBlock pathDir synced s0 =
     (let s = s0\<lparr>testedBlocks := testedBlocks s0 + 1\<rparr>;
          block = int2_add (nodePos parentOpenBlock) (PE_DIRECTION_VECTORS pathDir);
          blockIdx = BlockPosToIdx (fst (nbrOfBlocks env)) block
      in if unsigned_cast (fst block) \<ge> fst (nbrOfBlocks env) then (False, s)
         else if unsigned_cast (snd block) \<ge> snd (nbrOfBlocks env) then (False, s)
         else if blockStates_nodeMask s blockIdx AND (PATHOPT_BLOCKED OR PATHOPT_CLOSED) \<noteq> 0
           then (False, s)
         else
           let square = blockStates_peNodeOffsets s blockIdx (pathType moveDef);
               vIdx = vertexIdx env moveDef (nodeNum parentOpenBlock) pathDir
           in if vertexCosts s vIdx \<ge> PATHCOST_INFINITY env then (False, s)
              else if \<not> WithinConstraints peDef (fst square) (snd square) then
                (False,
                 s\<lparr>blockStates_nodeMask :=
                     (blockStates_nodeMask s)(blockIdx :=
                        blockStates_nodeMask s blockIdx OR PATHOPT_BLOCKED),
                   dirtyBlocks := dirtyBlocks s @ [blockIdx]\<rparr>)
              else
                let flowCost = GetFlowCost env (fst square) (snd square) moveDef pathDir;
                    extraCost = GetNodeExtraCost env (fst square) (snd square) synced;
                    nodeCost = vertexCosts s vIdx + flowCost + extraCost;
                    gC = gCost parentOpenBlock + nodeCost;
                    hC = Heuristic peDef (fst square) (snd square);
                    fC = gC + hC
                in if blockStates_nodeMask s blockIdx AND PATHOPT_OPEN \<noteq> 0 \<and>
                      blockStates_fCost s blockIdx \<le> fC
                   then (True, s)
                   else
                     let s1 = (if blockStates_nodeMask s blockIdx AND PATHOPT_OPEN \<noteq> 0
                               then s\<lparr>blockStates_nodeMask :=
                                        (blockStates_nodeMask s)(blockIdx :=
                                           blockStates_nodeMask s blockIdx AND NOT PATHOPT_CARDINALS)\<rparr>
                               else s);
                         s2 = (if hC < mGoalHeuristic s1
                               then s1\<lparr>mGoalBlockIdx := blockIdx, mGoalHeuristic := hC\<rparr>
                               else s1);
                         ob = \<lparr>fCost = fC, gCost = gC, nodePos = block, nodeNum = blockIdx\<rparr>;
                         s3 = s2\<lparr>openBlockBuffer_size := openBlockBuffer_size s2 + 1,
                                 openBlocks := openBlocks s2 @ [ob]\<rparr>;
                         s4 = s3\<lparr>blockStates_maxCostF := max (blockStates_maxCostF s3) fC,
                                 blockStates_maxCostG := max (blockStates_maxCostG s3) gC\<rparr>;
                         s5 = s4\<lparr>blockStates_fCost := (blockStates_fCost s4)(blockIdx := fC),
                                 blockStates_gCost := (blockStates_gCost s4)(blockIdx := gC),
                                 blockStates_nodeMask :=
                                   (blockStates_nodeMask s4)(blockIdx :=
                                      blockStates_nodeMask s4 blockIdx OR
                                        (word_of_int pathDir OR PATHOPT_OPEN)),
                                 blockStates_peParentNodePos :=
                                   (blockStates_peParentNodePos s4)(blockIdx :=
                                      nodePos parentOpenBlock)\<rparr>
                     in (True, s5\<lparr>dirtyBlocks := dirtyBlocks s5 @ [blockIdx]\<rparr>))"

text \<open>Modelled from the spec: the order of the open set, "Pop block \<open>ob\<close> with lowest \<open>f\<close>",
  "ties broken by open-set insertion order" (the comparator of the priority queue is not
  among the sources). \<open>openBlocks_top\<close> is \<open>openBlocks.top()\<close>, \<open>openBlocks_pop\<close> the queue
  after \<open>openBlocks.pop()\<close>.\<close>

definition openBlocks_top :: "'c::linorder PathNode list \<Rightarrow> 'c PathNode" where
  "openBlocks_top q = fold (\<lambda>n best. if fCost n < fCost best then n else best) (tl q) (hd q)"

definition openBlocks_pop :: "'c::linorder PathNode list \<Rightarrow> 'c PathNode list" where
  "openBlocks_pop q = remove1 (openBlocks_top q) q"

text \<open>Lines 517-522: the goal test of a popped block.\<close>

definition reaches_goal ::
  "'c Env \<Rightarrow> MoveDef \<Rightarrow> 'c CPathFinderDef \<Rightarrow> 'c CPathEstimator \<Rightarrow> 'c PathNode \<Rightarrow> bool" where
  "reaches_goal env moveDef peDef s ob =
     (let goalSqrOffset = GoalSquareOffset peDef (BLOCK_SIZE env);
          xBSquare = unsigned_cast (fst (blockStates_peNodeOffsets s (nodeNum ob) (pathType moveDef)));
          zBSquare = unsigned_cast (snd (blockStates_peNodeOffsets s (nodeNum ob) (pathType moveDef)));
          xGSquare = unsigned_cast (fst (nodePos ob) * BLOCK_SIZE env + fst goalSqrOffset);
          zGSquare = unsigned_cast (snd (nodePos ob) * BLOCK_SIZE env + snd goalSqrOffset)
      in IsGoal peDef xBSquare zBSquare \<or> IsGoal peDef xGSquare zGSquare)"

text \<open>Lines 532-542: the eight calls of \<open>TestBlock\<close> and the closing of the block.\<close>

definition DoSearch_expand ::
  "'c::{linorder, plus} Env \<Rightarrow> MoveDef \<Rightarrow> 'c CPathFinderDef \<Rightarrow> bool \<Rightarrow> 'c PathNode \<Rightarrow>
     'c CPathEstimator \<Rightarrow> 'c CPathEstimator" where
  "DoSearch_expand env moveDef peDef synced ob s =
     (let s1 = snd (TestBlock env moveDef peDef ob PATHDIR_LEFT synced s);
          s2 = snd (TestBlock env moveDef peDef ob PATHDIR_LEFT_UP synced s1);
          s3 = snd (TestBlock env moveDef peDef ob PATHDIR_UP synced s2);
          s4 = snd (TestBlock env moveDef peDef ob PATHDIR_RIGHT_UP synced s3);
          s5 = snd (TestBlock env moveDef peDef ob PATHDIR_RIGHT synced s4);
          s6 = snd (TestBlock env moveDef peDef ob PATHDIR_RIGHT_DOWN synced s5);
          s7 = snd (TestBlock env moveDef peDef ob PATHDIR_DOWN synced s6);
          s8 = snd (TestBlock env moveDef peDef ob PATHDIR_LEFT_DOWN synced s7)
      in s8\<lparr>blockStates_nodeMask :=
             (blockStates_nodeMask s8)(nodeNum ob :=
                blockStates_nodeMask s8 (nodeNum ob) OR PATHOPT_CLOSED)\<rparr>)"

subsection \<open>Termination of the search loop\<close>

lemma TestBlock_progress:
  "maxBlocksToBeSearched (snd (TestBlock env md peDef ob d synced s)) = maxBlocksToBeSearched s \<and>
   blockStates_peNodeOffsets (snd (TestBlock env md peDef ob d synced s)) = blockStates_peNodeOffsets s \<and>
   ((openBlocks (snd (TestBlock env md peDef ob d synced s)) = openBlocks s \<and>
     openBlockBuffer_size (snd (TestBlock env md peDef ob d synced s)) = openBlockBuffer_size s) \<or>
    (length (openBlocks (snd (TestBlock env md peDef ob d synced s))) = Suc (length (openBlocks s)) \<and>
     openBlockBuffer_size (snd (TestBlock env md peDef ob d synced s)) = Suc (openBlockBuffer_size s)))"
  by (simp add: TestBlock_def Let_def)

definition search_measure :: "'c CPathEstimator \<Rightarrow> nat \<times> nat" where
  "search_measure s = (maxBlocksToBeSearched s - openBlockBuffer_size s, length (openBlocks s))"

lemma TestBlock_measure:
  "maxBlocksToBeSearched (snd (TestBlock env md peDef ob d synced s)) = maxBlocksToBeSearched s \<and>
   blockStates_peNodeOffsets (snd (TestBlock env md peDef ob d synced s)) = blockStates_peNodeOffsets s \<and>
   openBlockBuffer_size s \<le> openBlockBuffer_size (snd (TestBlock env md peDef ob d synced s)) \<and>
   (openBlockBuffer_size (snd (TestBlock env md peDef ob d synced s)) = openBlockBuffer_size s \<longrightarrow>
     length (openBlocks (snd (TestBlock env md peDef ob d synced s))) = length (openBlocks s))"
  using TestBlock_progress[of env md peDef ob d synced s] by auto

lemma DoSearch_expand_measure:
  "maxBlocksToBeSearched (DoSearch_expand env md peDef synced ob s) = maxBlocksToBeSearched s \<and>
   blockStates_peNodeOffsets (DoSearch_expand env md peDef synced ob s) = blockStates_peNodeOffsets s \<and>
   openBlockBuffer_size s \<le> openBlockBuffer_size (DoSearch_expand env md peDef synced ob s) \<and>
   (openBlockBuffer_size (DoSearch_expand env md peDef synced ob s) = openBlockBuffer_size s \<longrightarrow>
     length (openBlocks (DoSearch_expand env md peDef synced ob s)) = length (openBlocks s))"
proof -
  define s1 where "s1 = snd (TestBlock env md peDef ob PATHDIR_LEFT synced s)"
  define s2 where "s2 = snd (TestBlock env md peDef ob PATHDIR_LEFT_UP synced s1)"
  define s3 where "s3 = snd (TestBlock env md peDef ob PATHDIR_UP synced s2)"
  define s4 where "s4 = snd (TestBlock env md peDef ob PATHDIR_RIGHT_UP synced s3)"
  define s5 where "s5 = snd (TestBlock env md peDef ob PATHDIR_RIGHT synced s4)"
  define s6 where "s6 = snd (TestBlock env md peDef ob PATHDIR_RIGHT_DOWN synced s5)"
  define s7 where "s7 = snd (TestBlock env md peDef ob PATHDIR_DOWN synced s6)"
  define s8 where "s8 = snd (TestBlock env md peDef ob PATHDIR_LEFT_DOWN synced s7)"
  note m = TestBlock_measure[of env md peDef ob _ synced]
  have e: "DoSearch_expand env md peDef synced ob s =
      s8\<lparr>blockStates_nodeMask := (blockStates_nodeMask s8)(nodeNum ob :=
                blockStates_nodeMask s8 (nodeNum ob) OR PATHOPT_CLOSED)\<rparr>"
    by (simp add: DoSearch_expand_def Let_def s1_def s2_def s3_def s4_def s5_def s6_def s7_def s8_def)
  show ?thesis
    unfolding e
    using m[of PATHDIR_LEFT s] m[of PATHDIR_LEFT_UP s1] m[of PATHDIR_UP s2] m[of PATHDIR_RIGHT_UP s3]
      m[of PATHDIR_RIGHT s4] m[of PATHDIR_RIGHT_DOWN s5] m[of PATHDIR_DOWN s6] m[of PATHDIR_LEFT_DOWN s7]
    unfolding s1_def[symmetric] s2_def[symmetric] s3_def[symmetric] s4_def[symmetric]
      s5_def[symmetric] s6_def[symmetric] s7_def[symmetric] s8_def[symmetric]
    by simp
qed

lemma openBlocks_top_in: "q \<noteq> [] \<Longrightarrow> openBlocks_top q \<in> set q"
proof -
  have "fold (\<lambda>n best. if fCost n < fCost best then n else best) xs b \<in> insert b (set xs)" for xs and b :: "'a PathNode"
    by (induction xs arbitrary: b) auto
  from this[of "tl q" "hd q"] show "q \<noteq> [] \<Longrightarrow> openBlocks_top q \<in> set q"
    by (cases q) (auto simp: openBlocks_top_def)
qed

lemma openBlocks_pop_length: "q \<noteq> [] \<Longrightarrow> length (openBlocks_pop q) < length q"
  by (simp add: openBlocks_pop_def length_remove1 openBlocks_top_in)


text \<open>Lines 507-543: the loop of \<open>DoSearch\<close>. It returns \<open>foundGoal\<close>, the state after the
  loop and, as an observation of the run that the source does not keep, the list of the
  popped nodes that were still open when popped (those that reached the goal test of lines
  517-522), in the order of popping.\<close>

function DoSearch_loop ::
  "'c::{linorder, plus, zero} Env \<Rightarrow> MoveDef \<Rightarrow> 'c CPathFinderDef \<Rightarrow> bool \<Rightarrow> 'c CPathEstimator \<Rightarrow>
     bool \<times> 'c PathNode list \<times> 'c CPathEstimator" where
  "DoSearch_loop env moveDef peDef synced s =
     (if openBlocks s \<noteq> [] \<and> openBlockBuffer_size s < maxBlocksToBeSearched s then
        let ob = openBlocks_top (openBlocks s);
            s1 = s\<lparr>openBlocks := openBlocks_pop (openBlocks s)\<rparr>
        in if blockStates_nodeMask s1 (nodeNum ob) AND (PATHOPT_BLOCKED OR PATHOPT_CLOSED) \<noteq> 0
           then DoSearch_loop env moveDef peDef synced s1
           else if reaches_goal env moveDef peDef s1 ob
           then (True, [ob], s1\<lparr>mGoalBlockIdx := nodeNum ob, mGoalHeuristic := 0\<rparr>)
           else
             (case DoSearch_loop env moveDef peDef synced
                     (DoSearch_expand env moveDef peDef synced ob s1) of
                (foundGoal, popped, s') \<Rightarrow> (foundGoal, ob # popped, s'))
      else (False, [], s))"
  by pat_completeness auto
termination
proof (relation "inv_image (less_than <*lex*> less_than) (\<lambda>(env, md, peDef, synced, s). search_measure s)", goal_cases)
  case 1
  show ?case by (intro wf_inv_image wf_lex_prod wf_less_than)
next
  case (2 env moveDef peDef synced s x xa)
  then show ?case
    by (simp add: search_measure_def openBlocks_pop_length)
next
  case (3 env moveDef peDef synced s x xa)
  let ?s1 = "s\<lparr>openBlocks := openBlocks_pop (openBlocks s)\<rparr>"
  from DoSearch_expand_measure[of env moveDef peDef synced x ?s1] 3
  show ?case
    using openBlocks_pop_length[of "openBlocks s"]
    by (auto simp: search_measure_def)
qed


declare DoSearch_loop.simps [simp del]

text \<open>\<open>DoSearch\<close>: the loop and the classification of lines 545-559. The parameter
  \<open>owner\<close> is unused by the source and left out.\<close>

definition DoSearch ::
  "'c::{linorder, plus, zero} Env \<Rightarrow> MoveDef \<Rightarrow> 'c CPathFinderDef \<Rightarrow> bool \<Rightarrow> 'c CPathEstimator \<Rightarrow>
     SearchResult \<times> 'c PathNode list \<times> 'c CPathEstimator" where
  "DoSearch env moveDef peDef synced s =
     (case DoSearch_loop env moveDef peDef synced s of
        (foundGoal, popped, s') \<Rightarrow>
          (if foundGoal then Ok
           else if openBlockBuffer_size s' \<ge> maxBlocksToBeSearched s' then GoalOutOfRange
           else if openBlocks s' = [] then GoalOutOfRange
           else Error,
           popped, s'))"

text \<open>Lines 581-582 and 640-645: a node that \<open>TestBlock\<close> can push for a parent node
  is a neighbour of the parent in one of the eight directions, inside the map (lines
  585-586), and carries the index of its position.\<close>

definition opened_from :: "'c Env \<Rightarrow> 'c PathNode \<Rightarrow> 'c PathNode \<Rightarrow> bool" where
  "opened_from env parent n \<longleftrightarrow>
     (\<exists>d \<in> {0..7}. nodePos n = int2_add (nodePos parent) (PE_DIRECTION_VECTORS d)) \<and>
     nodeNum n = BlockPosToIdx (fst (nbrOfBlocks env)) (nodePos n) \<and>
     \<not> outside_map env (nodePos n)"

text \<open>Every popped node comes from the open set of the start state or was opened from a
  node popped before it.\<close>

definition popped_from :: "'c Env \<Rightarrow> 'c PathNode list \<Rightarrow> 'c PathNode list \<Rightarrow> bool" where
  "popped_from env open0 popped \<longleftrightarrow>
     (\<forall>i < length popped.
        popped ! i \<in> set open0 \<or> (\<exists>j < i. opened_from env (popped ! j) (popped ! i)))"

lemma reaches_goal_offsets:
  "blockStates_peNodeOffsets s = blockStates_peNodeOffsets t \<Longrightarrow>
   reaches_goal env md peDef s = reaches_goal env md peDef t"
  by (simp add: reaches_goal_def fun_eq_iff)

lemma DoSearch_loop_post:
  "DoSearch_loop env md peDef synced s = (found, popped, s') \<Longrightarrow>
     (found \<longleftrightarrow> (\<exists>ob \<in> set popped. reaches_goal env md peDef s ob)) \<and>
     (found \<longrightarrow> popped \<noteq> [] \<and> reaches_goal env md peDef s (last popped) \<and>
        mGoalBlockIdx s' = nodeNum (last popped) \<and> mGoalHeuristic s' = 0) \<and>
     (\<not> found \<longrightarrow> openBlocks s' = [] \<or> maxBlocksToBeSearched s' \<le> openBlockBuffer_size s')"
proof (induction env md peDef synced s arbitrary: found popped s' rule: DoSearch_loop.induct)
  case (1 env md peDef synced s)
  show ?case
  proof (cases "openBlocks s \<noteq> [] \<and> openBlockBuffer_size s < maxBlocksToBeSearched s")
    case False
    with "1.prems" show ?thesis
      by (auto simp: DoSearch_loop.simps[of env md peDef synced s])
  next
    case run: True
    define ob where "ob = openBlocks_top (openBlocks s)"
    define s1 where "s1 = s\<lparr>openBlocks := openBlocks_pop (openBlocks s)\<rparr>"
    have off1: "reaches_goal env md peDef s1 = reaches_goal env md peDef s"
      by (rule reaches_goal_offsets) (simp add: s1_def)
    show ?thesis
    proof (cases "blockStates_nodeMask s1 (nodeNum ob) AND (PATHOPT_BLOCKED OR PATHOPT_CLOSED) \<noteq> 0")
      case skip: True
      with run "1.prems" have "DoSearch_loop env md peDef synced s1 = (found, popped, s')"
        by (simp add: DoSearch_loop.simps[of env md peDef synced s] Let_def ob_def s1_def)
      from "1.IH"(1)[OF run ob_def s1_def skip this] show ?thesis
        by (simp add: off1)
    next
      case noskip: False
      show ?thesis
      proof (cases "reaches_goal env md peDef s1 ob")
        case True
        with run noskip "1.prems" have "found" "popped = [ob]"
          "s' = s1\<lparr>mGoalBlockIdx := nodeNum ob, mGoalHeuristic := 0\<rparr>"
          by (simp_all add: DoSearch_loop.simps[of env md peDef synced s] Let_def ob_def s1_def)
        with True show ?thesis by (simp add: off1)
      next
        case nogoal: False
        define s2 where "s2 = DoSearch_expand env md peDef synced ob s1"
        obtain f p t where r: "DoSearch_loop env md peDef synced s2 = (f, p, t)"
          by (cases "DoSearch_loop env md peDef synced s2") auto
        with run noskip nogoal "1.prems" have eqs: "found = f" "popped = ob # p" "s' = t"
          by (simp_all add: DoSearch_loop.simps[of env md peDef synced s] Let_def ob_def s1_def s2_def)
        have off2: "reaches_goal env md peDef s2 = reaches_goal env md peDef s"
          using DoSearch_expand_measure[of env md peDef synced ob s1]
          by (intro reaches_goal_offsets) (simp add: s2_def s1_def)
        from "1.IH"(2)[OF run ob_def s1_def noskip nogoal r[unfolded s2_def]]
        show ?thesis
          using nogoal by (auto simp: eqs off1 off2 s2_def[symmetric])
      qed
    qed
  qed
qed

lemma TestBlock_opens:
  assumes "0 \<le> d" "d \<le> 7"
  shows "set (openBlocks (snd (TestBlock env md peDef ob d synced s))) \<subseteq>
           set (openBlocks s) \<union> {n. opened_from env ob n}"
  using assms by (auto simp: TestBlock_def Let_def opened_from_def outside_map_def)

lemma DoSearch_expand_opens:
  "set (openBlocks (DoSearch_expand env md peDef synced ob s)) \<subseteq>
     set (openBlocks s) \<union> {n. opened_from env ob n}"
proof -
  define s1 where "s1 = snd (TestBlock env md peDef ob PATHDIR_LEFT synced s)"
  define s2 where "s2 = snd (TestBlock env md peDef ob PATHDIR_LEFT_UP synced s1)"
  define s3 where "s3 = snd (TestBlock env md peDef ob PATHDIR_UP synced s2)"
  define s4 where "s4 = snd (TestBlock env md peDef ob PATHDIR_RIGHT_UP synced s3)"
  define s5 where "s5 = snd (TestBlock env md peDef ob PATHDIR_RIGHT synced s4)"
  define s6 where "s6 = snd (TestBlock env md peDef ob PATHDIR_RIGHT_DOWN synced s5)"
  define s7 where "s7 = snd (TestBlock env md peDef ob PATHDIR_DOWN synced s6)"
  define s8 where "s8 = snd (TestBlock env md peDef ob PATHDIR_LEFT_DOWN synced s7)"
  have e: "openBlocks (DoSearch_expand env md peDef synced ob s) = openBlocks s8"
    by (simp add: DoSearch_expand_def Let_def s1_def s2_def s3_def s4_def s5_def s6_def s7_def s8_def)
  have t: "set (openBlocks (snd (TestBlock env md peDef ob d synced t))) \<subseteq>
           set (openBlocks t) \<union> {n. opened_from env ob n}"
    if "d \<in> {PATHDIR_LEFT, PATHDIR_LEFT_UP, PATHDIR_UP, PATHDIR_RIGHT_UP, PATHDIR_RIGHT,
             PATHDIR_RIGHT_DOWN, PATHDIR_DOWN, PATHDIR_LEFT_DOWN}" for d t
    using that by (intro TestBlock_opens) (auto simp: PATHDIR_defs)
  have "set (openBlocks s1) \<subseteq> set (openBlocks s) \<union> {n. opened_from env ob n}"
    unfolding s1_def by (rule t) simp
  moreover have "set (openBlocks s2) \<subseteq> set (openBlocks s1) \<union> {n. opened_from env ob n}"
    unfolding s2_def by (rule t) simp
  moreover have "set (openBlocks s3) \<subseteq> set (openBlocks s2) \<union> {n. opened_from env ob n}"
    unfolding s3_def by (rule t) simp
  moreover have "set (openBlocks s4) \<subseteq> set (openBlocks s3) \<union> {n. opened_from env ob n}"
    unfolding s4_def by (rule t) simp
  moreover have "set (openBlocks s5) \<subseteq> set (openBlocks s4) \<union> {n. opened_from env ob n}"
    unfolding s5_def by (rule t) simp
  moreover have "set (openBlocks s6) \<subseteq> set (openBlocks s5) \<union> {n. opened_from env ob n}"
    unfolding s6_def by (rule t) simp
  moreover have "set (openBlocks s7) \<subseteq> set (openBlocks s6) \<union> {n. opened_from env ob n}"
    unfolding s7_def by (rule t) simp
  moreover have "set (openBlocks s8) \<subseteq> set (openBlocks s7) \<union> {n. opened_from env ob n}"
    unfolding s8_def by (rule t) simp
  ultimately show ?thesis unfolding e by blast
qed

lemma CLOSED_in_mask:
  "m AND PATHOPT_CLOSED \<noteq> 0 \<Longrightarrow> m AND (PATHOPT_BLOCKED OR PATHOPT_CLOSED) \<noteq> (0 :: 8 word)"
proof
  assume a: "m AND PATHOPT_CLOSED \<noteq> 0" and z: "m AND (PATHOPT_BLOCKED OR PATHOPT_CLOSED) = 0"
  have "m AND PATHOPT_CLOSED = (m AND (PATHOPT_BLOCKED OR PATHOPT_CLOSED)) AND PATHOPT_CLOSED"
    by (simp add: word_bw_assocs word_ao_absorbs)
  with z have "m AND PATHOPT_CLOSED = 0" by simp
  with a show False by simp
qed

lemma CLOSED_set: "(m OR PATHOPT_CLOSED) AND PATHOPT_CLOSED \<noteq> 0"
  by (simp add: PATHOPT_CLOSED_def word_ao_absorbs)

lemma TestBlock_keeps_closed:
  assumes "blockStates_nodeMask s k AND PATHOPT_CLOSED \<noteq> 0"
  shows "blockStates_nodeMask (snd (TestBlock env md peDef ob d synced s)) k = blockStates_nodeMask s k"
  using CLOSED_in_mask[OF assms] by (auto simp: TestBlock_def Let_def)

lemma DoSearch_expand_closed:
  "blockStates_nodeMask (DoSearch_expand env md peDef synced ob s) (nodeNum ob) AND PATHOPT_CLOSED \<noteq> 0"
  using CLOSED_set by (simp add: DoSearch_expand_def Let_def)

lemma DoSearch_expand_keeps_closed:
  assumes "blockStates_nodeMask s k AND PATHOPT_CLOSED \<noteq> 0"
  shows "blockStates_nodeMask (DoSearch_expand env md peDef synced ob s) k AND PATHOPT_CLOSED \<noteq> 0"
proof -
  define s1 where "s1 = snd (TestBlock env md peDef ob PATHDIR_LEFT synced s)"
  define s2 where "s2 = snd (TestBlock env md peDef ob PATHDIR_LEFT_UP synced s1)"
  define s3 where "s3 = snd (TestBlock env md peDef ob PATHDIR_UP synced s2)"
  define s4 where "s4 = snd (TestBlock env md peDef ob PATHDIR_RIGHT_UP synced s3)"
  define s5 where "s5 = snd (TestBlock env md peDef ob PATHDIR_RIGHT synced s4)"
  define s6 where "s6 = snd (TestBlock env md peDef ob PATHDIR_RIGHT_DOWN synced s5)"
  define s7 where "s7 = snd (TestBlock env md peDef ob PATHDIR_DOWN synced s6)"
  define s8 where "s8 = snd (TestBlock env md peDef ob PATHDIR_LEFT_DOWN synced s7)"
  have e: "DoSearch_expand env md peDef synced ob s =
      s8\<lparr>blockStates_nodeMask := (blockStates_nodeMask s8)(nodeNum ob :=
                blockStates_nodeMask s8 (nodeNum ob) OR PATHOPT_CLOSED)\<rparr>"
    by (simp add: DoSearch_expand_def Let_def s1_def s2_def s3_def s4_def s5_def s6_def s7_def s8_def)
  have 1: "blockStates_nodeMask s1 k = blockStates_nodeMask s k"
    unfolding s1_def by (rule TestBlock_keeps_closed[OF assms])
  have 2: "blockStates_nodeMask s2 k = blockStates_nodeMask s k"
    unfolding s2_def using TestBlock_keeps_closed[of s1 k] assms 1 by simp
  have 3: "blockStates_nodeMask s3 k = blockStates_nodeMask s k"
    unfolding s3_def using TestBlock_keeps_closed[of s2 k] assms 2 by simp
  have 4: "blockStates_nodeMask s4 k = blockStates_nodeMask s k"
    unfolding s4_def using TestBlock_keeps_closed[of s3 k] assms 3 by simp
  have 5: "blockStates_nodeMask s5 k = blockStates_nodeMask s k"
    unfolding s5_def using TestBlock_keeps_closed[of s4 k] assms 4 by simp
  have 6: "blockStates_nodeMask s6 k = blockStates_nodeMask s k"
    unfolding s6_def using TestBlock_keeps_closed[of s5 k] assms 5 by simp
  have 7: "blockStates_nodeMask s7 k = blockStates_nodeMask s k"
    unfolding s7_def using TestBlock_keeps_closed[of s6 k] assms 6 by simp
  have 8: "blockStates_nodeMask s8 k = blockStates_nodeMask s k"
    unfolding s8_def using TestBlock_keeps_closed[of s7 k] assms 7 by simp
  show ?thesis
    unfolding e using assms 8 CLOSED_set by (cases "k = nodeNum ob") simp_all
qed


lemma openBlocks_pop_subset: "set (openBlocks_pop q) \<subseteq> set q"
  by (simp add: openBlocks_pop_def set_remove1_subset)

lemma DoSearch_loop_stop:
  assumes "\<not> (openBlocks s \<noteq> [] \<and> openBlockBuffer_size s < maxBlocksToBeSearched s)"
  shows "DoSearch_loop env md peDef synced s = (False, [], s)"
  using assms by (auto simp: DoSearch_loop.simps[of env md peDef synced s])

lemma DoSearch_loop_skip:
  assumes "openBlocks s \<noteq> [] \<and> openBlockBuffer_size s < maxBlocksToBeSearched s"
    and "blockStates_nodeMask s (nodeNum (openBlocks_top (openBlocks s))) AND
           (PATHOPT_BLOCKED OR PATHOPT_CLOSED) \<noteq> 0"
  shows "DoSearch_loop env md peDef synced s =
         DoSearch_loop env md peDef synced (s\<lparr>openBlocks := openBlocks_pop (openBlocks s)\<rparr>)"
  using assms by (simp add: DoSearch_loop.simps[of env md peDef synced s] Let_def)

lemma DoSearch_loop_goal:
  assumes "openBlocks s \<noteq> [] \<and> openBlockBuffer_size s < maxBlocksToBeSearched s"
    and "\<not> blockStates_nodeMask s (nodeNum (openBlocks_top (openBlocks s))) AND
           (PATHOPT_BLOCKED OR PATHOPT_CLOSED) \<noteq> 0"
    and "reaches_goal env md peDef s (openBlocks_top (openBlocks s))"
  shows "DoSearch_loop env md peDef synced s =
         (True, [openBlocks_top (openBlocks s)],
          s\<lparr>openBlocks := openBlocks_pop (openBlocks s),
            mGoalBlockIdx := nodeNum (openBlocks_top (openBlocks s)), mGoalHeuristic := 0\<rparr>)"
proof -
  have "reaches_goal env md peDef (s\<lparr>openBlocks := openBlocks_pop (openBlocks s)\<rparr>) =
        reaches_goal env md peDef s"
    by (rule reaches_goal_offsets) simp
  with assms show ?thesis
    by (simp add: DoSearch_loop.simps[of env md peDef synced s] Let_def)
qed

lemma DoSearch_loop_expand:
  assumes "openBlocks s \<noteq> [] \<and> openBlockBuffer_size s < maxBlocksToBeSearched s"
    and "\<not> blockStates_nodeMask s (nodeNum (openBlocks_top (openBlocks s))) AND
           (PATHOPT_BLOCKED OR PATHOPT_CLOSED) \<noteq> 0"
    and "\<not> reaches_goal env md peDef s (openBlocks_top (openBlocks s))"
  shows "DoSearch_loop env md peDef synced s =
         (case DoSearch_loop env md peDef synced
                 (DoSearch_expand env md peDef synced (openBlocks_top (openBlocks s))
                    (s\<lparr>openBlocks := openBlocks_pop (openBlocks s)\<rparr>)) of
            (foundGoal, popped, s') \<Rightarrow> (foundGoal, openBlocks_top (openBlocks s) # popped, s'))"
proof -
  have "reaches_goal env md peDef (s\<lparr>openBlocks := openBlocks_pop (openBlocks s)\<rparr>) =
        reaches_goal env md peDef s"
    by (rule reaches_goal_offsets) simp
  with assms show ?thesis
    by (simp add: DoSearch_loop.simps[of env md peDef synced s] Let_def)
qed

lemma DoSearch_loop_keeps_closed:
  "DoSearch_loop env md peDef synced s = (found, popped, s') \<Longrightarrow>
   blockStates_nodeMask s k AND PATHOPT_CLOSED \<noteq> 0 \<Longrightarrow>
   blockStates_nodeMask s' k AND PATHOPT_CLOSED \<noteq> 0"
proof (induction env md peDef synced s arbitrary: found popped s' rule: DoSearch_loop.induct)
  case (1 env md peDef synced s)
  define ob where "ob = openBlocks_top (openBlocks s)"
  define s1 where "s1 = s\<lparr>openBlocks := openBlocks_pop (openBlocks s)\<rparr>"
  have m1: "blockStates_nodeMask s1 = blockStates_nodeMask s" by (simp add: s1_def)
  show ?case
  proof (cases "openBlocks s \<noteq> [] \<and> openBlockBuffer_size s < maxBlocksToBeSearched s")
    case False
    with "1.prems" show ?thesis by (simp add: DoSearch_loop_stop)
  next
    case run: True
    show ?thesis
    proof (cases "blockStates_nodeMask s (nodeNum ob) AND (PATHOPT_BLOCKED OR PATHOPT_CLOSED) \<noteq> 0")
      case skip: True
      from "1.prems"(1) have r: "DoSearch_loop env md peDef synced s1 = (found, popped, s')"
        using DoSearch_loop_skip[OF run skip[unfolded ob_def], of env md peDef synced]
        by (simp add: s1_def)
      have sk: "blockStates_nodeMask s1 (nodeNum ob) AND (PATHOPT_BLOCKED OR PATHOPT_CLOSED) \<noteq> 0"
        using skip by (simp add: m1)
      from "1.IH"(1)[OF run ob_def s1_def sk r] "1.prems"(2) show ?thesis by (simp add: m1)
    next
      case noskip: False
      have nsk: "\<not> blockStates_nodeMask s1 (nodeNum ob) AND (PATHOPT_BLOCKED OR PATHOPT_CLOSED) \<noteq> 0"
        using noskip by (simp add: m1)
      have g1: "reaches_goal env md peDef s1 ob = reaches_goal env md peDef s ob"
        using reaches_goal_offsets[of s1 s env md peDef] by (simp add: s1_def)
      show ?thesis
      proof (cases "reaches_goal env md peDef s ob")
        case True
        from "1.prems"(1) DoSearch_loop_goal[OF run noskip[unfolded ob_def] True[unfolded ob_def], of synced]
        have "blockStates_nodeMask s' = blockStates_nodeMask s" by auto
        with "1.prems"(2) show ?thesis by simp
      next
        case nogoal: False
        define s2 where "s2 = DoSearch_expand env md peDef synced ob s1"
        obtain f p t where r: "DoSearch_loop env md peDef synced s2 = (f, p, t)"
          by (cases "DoSearch_loop env md peDef synced s2") auto
        from "1.prems"(1) DoSearch_loop_expand[OF run noskip[unfolded ob_def] nogoal[unfolded ob_def], of synced]
        have eqs: "s' = t"
          by (simp add: r[unfolded s2_def s1_def ob_def])
        have c2: "blockStates_nodeMask s2 k AND PATHOPT_CLOSED \<noteq> 0"
          unfolding s2_def using "1.prems"(2) by (intro DoSearch_expand_keeps_closed) (simp add: m1)
        have ng: "\<not> reaches_goal env md peDef s1 ob" using nogoal g1 by simp
        from "1.IH"(2)[OF run ob_def s1_def nsk ng r[unfolded s2_def] c2[unfolded s2_def]]
        show ?thesis by (simp add: eqs)
      qed
    qed
  qed
qed

lemma popped_from_Nil: "popped_from env q []"
  by (simp add: popped_from_def)

lemma popped_from_mono: "set q \<subseteq> set q' \<Longrightarrow> popped_from env q p \<Longrightarrow> popped_from env q' p"
  unfolding popped_from_def by blast

lemma popped_from_Cons:
  assumes "ob \<in> set q" "popped_from env q2 p" "set q2 \<subseteq> set q \<union> {n. opened_from env ob n}"
  shows "popped_from env q (ob # p)"
  unfolding popped_from_def
proof (intro allI impI)
  fix i assume i: "i < length (ob # p)"
  show "(ob # p) ! i \<in> set q \<or> (\<exists>j < i. opened_from env ((ob # p) ! j) ((ob # p) ! i))"
  proof (cases i)
    case 0
    with assms(1) show ?thesis by simp
  next
    case (Suc k)
    with i have k: "k < length p" by simp
    from assms(2) k have "p ! k \<in> set q2 \<or> (\<exists>j < k. opened_from env (p ! j) (p ! k))"
      unfolding popped_from_def by blast
    then show ?thesis
    proof
      assume "p ! k \<in> set q2"
      with assms(3) have "p ! k \<in> set q \<or> opened_from env ob (p ! k)" by blast
      then show ?thesis
      proof
        assume "p ! k \<in> set q"
        then show ?thesis by (simp add: Suc)
      next
        assume "opened_from env ob (p ! k)"
        then have "0 < i \<and> opened_from env ((ob # p) ! 0) ((ob # p) ! i)" by (simp add: Suc)
        then show ?thesis by blast
      qed
    next
      assume "\<exists>j < k. opened_from env (p ! j) (p ! k)"
      then obtain j where "j < k" "opened_from env (p ! j) (p ! k)" by blast
      then have "Suc j < i \<and> opened_from env ((ob # p) ! Suc j) ((ob # p) ! i)" by (simp add: Suc)
      then show ?thesis by blast
    qed
  qed
qed

lemma DoSearch_loop_trace:
  "DoSearch_loop env md peDef synced s = (found, popped, s') \<Longrightarrow>
     popped_from env (openBlocks s) popped \<and>
     (\<forall>ob \<in> set (butlast popped). \<not> reaches_goal env md peDef s ob) \<and>
     (\<forall>ob \<in> set (if found then butlast popped else popped).
        blockStates_nodeMask s' (nodeNum ob) AND PATHOPT_CLOSED \<noteq> 0)"
proof (induction env md peDef synced s arbitrary: found popped s' rule: DoSearch_loop.induct)
  case (1 env md peDef synced s)
  define ob where "ob = openBlocks_top (openBlocks s)"
  define s1 where "s1 = s\<lparr>openBlocks := openBlocks_pop (openBlocks s)\<rparr>"
  have m1: "blockStates_nodeMask s1 = blockStates_nodeMask s" by (simp add: s1_def)
  have o1: "set (openBlocks s1) \<subseteq> set (openBlocks s)"
    by (simp add: s1_def openBlocks_pop_subset)
  have g1: "reaches_goal env md peDef s1 = reaches_goal env md peDef s"
    by (rule reaches_goal_offsets) (simp add: s1_def)
  show ?case
  proof (cases "openBlocks s \<noteq> [] \<and> openBlockBuffer_size s < maxBlocksToBeSearched s")
    case False
    with "1.prems" have "found = False" "popped = []"
      by (simp_all add: DoSearch_loop_stop)
    then show ?thesis by (simp add: popped_from_Nil)
  next
    case run: True
    then have obin: "ob \<in> set (openBlocks s)"
      by (simp add: ob_def openBlocks_top_in)
    show ?thesis
    proof (cases "blockStates_nodeMask s (nodeNum ob) AND (PATHOPT_BLOCKED OR PATHOPT_CLOSED) \<noteq> 0")
      case skip: True
      from "1.prems"(1) have r: "DoSearch_loop env md peDef synced s1 = (found, popped, s')"
        using DoSearch_loop_skip[OF run skip[unfolded ob_def], of env md peDef synced]
        by (simp add: s1_def)
      have sk: "blockStates_nodeMask s1 (nodeNum ob) AND (PATHOPT_BLOCKED OR PATHOPT_CLOSED) \<noteq> 0"
        using skip by (simp add: m1)
      from "1.IH"(1)[OF run ob_def s1_def sk r] popped_from_mono[OF o1]
      show ?thesis by (auto simp: g1)
    next
      case noskip: False
      have nsk: "\<not> blockStates_nodeMask s1 (nodeNum ob) AND (PATHOPT_BLOCKED OR PATHOPT_CLOSED) \<noteq> 0"
        using noskip by (simp add: m1)
      show ?thesis
      proof (cases "reaches_goal env md peDef s ob")
        case True
        from "1.prems"(1) DoSearch_loop_goal[OF run noskip[unfolded ob_def] True[unfolded ob_def], of synced]
        have "found" "popped = [ob]" by (auto simp: ob_def)
        with obin show ?thesis
          using popped_from_Cons[OF obin popped_from_Nil, of "[]" env] by simp
      next
        case nogoal: False
        define s2 where "s2 = DoSearch_expand env md peDef synced ob s1"
        obtain f p t where r: "DoSearch_loop env md peDef synced s2 = (f, p, t)"
          by (cases "DoSearch_loop env md peDef synced s2") auto
        from "1.prems"(1) DoSearch_loop_expand[OF run noskip[unfolded ob_def] nogoal[unfolded ob_def], of synced]
        have eqs: "found = f" "popped = ob # p" "s' = t"
          by (simp_all add: r[unfolded s2_def s1_def ob_def] ob_def)
        have ng: "\<not> reaches_goal env md peDef s1 ob" using nogoal g1 by simp
        have g2: "reaches_goal env md peDef s2 = reaches_goal env md peDef s"
          using DoSearch_expand_measure[of env md peDef synced ob s1]
          by (intro reaches_goal_offsets) (simp add: s2_def s1_def)
        from "1.IH"(2)[OF run ob_def s1_def nsk ng r[unfolded s2_def]]
        have ih: "popped_from env (openBlocks s2) p"
          "\<forall>n \<in> set (butlast p). \<not> reaches_goal env md peDef s n"
          "\<forall>n \<in> set (if f then butlast p else p).
              blockStates_nodeMask t (nodeNum n) AND PATHOPT_CLOSED \<noteq> 0"
          by (simp_all add: s2_def[symmetric] g2)
        have sub: "set (openBlocks s2) \<subseteq> set (openBlocks s) \<union> {n. opened_from env ob n}"
          using DoSearch_expand_opens[of env md peDef synced ob s1] o1 by (auto simp: s2_def)
        have a: "popped_from env (openBlocks s) (ob # p)"
          by (rule popped_from_Cons[OF obin ih(1) sub])
        have b: "\<forall>n \<in> set (butlast (ob # p)). \<not> reaches_goal env md peDef s n"
          using nogoal ih(2) by simp
        have "blockStates_nodeMask s2 (nodeNum ob) AND PATHOPT_CLOSED \<noteq> 0"
          unfolding s2_def by (rule DoSearch_expand_closed)
        from DoSearch_loop_keeps_closed[OF r this]
        have cob: "blockStates_nodeMask t (nodeNum ob) AND PATHOPT_CLOSED \<noteq> 0" .
        have c: "\<forall>n \<in> set (if f then butlast (ob # p) else ob # p).
              blockStates_nodeMask t (nodeNum n) AND PATHOPT_CLOSED \<noteq> 0"
          using cob ih(3) by (auto split: if_splits)
        from a b c show ?thesis by (simp add: eqs)
      qed
    qed
  qed
qed


lemma DoSearch_stop:
  assumes "openBlocks s = [] \<or> maxBlocksToBeSearched s \<le> openBlockBuffer_size s"
  shows "DoSearch env md peDef synced s = (GoalOutOfRange, [], s)"
proof -
  from assms have "\<not> (openBlocks s \<noteq> [] \<and> openBlockBuffer_size s < maxBlocksToBeSearched s)"
    by auto
  from DoSearch_loop_stop[OF this, of env md peDef synced] assms
  show ?thesis by (auto simp: DoSearch_def)
qed

lemma DoSearch_step:
  assumes run: "openBlocks s \<noteq> [] \<and> openBlockBuffer_size s < maxBlocksToBeSearched s"
  shows "DoSearch env md peDef synced s =
     (let ob = openBlocks_top (openBlocks s);
          s1 = s\<lparr>openBlocks := openBlocks_pop (openBlocks s)\<rparr>
      in if blockStates_nodeMask s (nodeNum ob) AND (PATHOPT_BLOCKED OR PATHOPT_CLOSED) \<noteq> 0
         then DoSearch env md peDef synced s1
         else if reaches_goal env md peDef s ob
         then (Ok, [ob], s1\<lparr>mGoalBlockIdx := nodeNum ob, mGoalHeuristic := 0\<rparr>)
         else (case DoSearch env md peDef synced (DoSearch_expand env md peDef synced ob s1) of
                 (r, popped, s') \<Rightarrow> (r, ob # popped, s')))"
proof -
  define ob where "ob = openBlocks_top (openBlocks s)"
  define s1 where "s1 = s\<lparr>openBlocks := openBlocks_pop (openBlocks s)\<rparr>"
  show ?thesis
  proof (cases "blockStates_nodeMask s (nodeNum ob) AND (PATHOPT_BLOCKED OR PATHOPT_CLOSED) \<noteq> 0")
    case skip: True
    from DoSearch_loop_skip[OF run skip[unfolded ob_def], of env md peDef synced] skip
    show ?thesis
      by (simp add: DoSearch_def Let_def ob_def)
  next
    case noskip: False
    show ?thesis
    proof (cases "reaches_goal env md peDef s ob")
      case True
      from DoSearch_loop_goal[OF run noskip[unfolded ob_def] True[unfolded ob_def], of synced]
        noskip True
      show ?thesis
        by (simp add: DoSearch_def Let_def ob_def)
    next
      case nogoal: False
      from DoSearch_loop_expand[OF run noskip[unfolded ob_def] nogoal[unfolded ob_def], of synced]
        noskip nogoal
      show ?thesis
        by (simp add: DoSearch_def Let_def ob_def split: prod.split)
    qed
  qed
qed

text \<open>
  Claim C3. \<open>DoSearch\<close> terminates and never returns \<open>Error\<close>. It returns \<open>Ok\<close> exactly
  when one of the popped open blocks passes the goal test (its representative square or
  its goal-offset square satisfies \<open>IsGoal\<close>); this is then the last block popped, it is
  recorded in \<open>mGoalBlockIdx\<close>, and \<open>mGoalHeuristic\<close> is zero. In every other case the
  result is \<open>GoalOutOfRange\<close>, and the open-block buffer has reached
  \<open>maxBlocksToBeSearched\<close> or the open set is empty.

  The result is fixed by the state the search starts from. On an empty open set, or
  with the buffer at \<open>maxBlocksToBeSearched\<close>, nothing is popped, the state is unchanged
  and the result is \<open>GoalOutOfRange\<close>. Otherwise the best open block is popped: if it is
  blocked or closed the search goes on from the state without it; if it passes the goal
  test the result is \<open>Ok\<close> with this block alone popped; else the block is expanded and
  the search goes on from the expanded state, its result with this block in front of
  the popped blocks. Every popped block was in the open set at the start or was opened
  from a block popped before it; no popped block but the last passes the goal test; and
  every popped block that was expanded is closed in the final state.
\<close>

theorem DoSearch_classification:
  "DoSearch env md peDef synced s = (r, popped, s') \<Longrightarrow>
     r \<noteq> Error \<and>
     (r = Ok \<longleftrightarrow> (\<exists>ob \<in> set popped. reaches_goal env md peDef s ob)) \<and>
     (r = Ok \<longrightarrow> popped \<noteq> [] \<and> reaches_goal env md peDef s (last popped) \<and>
        mGoalBlockIdx s' = nodeNum (last popped) \<and> mGoalHeuristic s' = 0) \<and>
     (r \<noteq> Ok \<longrightarrow> r = GoalOutOfRange \<and>
        (maxBlocksToBeSearched s' \<le> openBlockBuffer_size s' \<or> openBlocks s' = [])) \<and>
     (openBlocks s = [] \<or> maxBlocksToBeSearched s \<le> openBlockBuffer_size s \<longrightarrow>
        r = GoalOutOfRange \<and> popped = [] \<and> s' = s) \<and>
     (openBlocks s \<noteq> [] \<and> openBlockBuffer_size s < maxBlocksToBeSearched s \<longrightarrow>
        (r, popped, s') =
          (let ob = openBlocks_top (openBlocks s);
               s1 = s\<lparr>openBlocks := openBlocks_pop (openBlocks s)\<rparr>
           in if blockStates_nodeMask s (nodeNum ob) AND (PATHOPT_BLOCKED OR PATHOPT_CLOSED) \<noteq> 0
              then DoSearch env md peDef synced s1
              else if reaches_goal env md peDef s ob
              then (Ok, [ob], s1\<lparr>mGoalBlockIdx := nodeNum ob, mGoalHeuristic := 0\<rparr>)
              else (case DoSearch env md peDef synced (DoSearch_expand env md peDef synced ob s1) of
                      (r2, popped2, s2) \<Rightarrow> (r2, ob # popped2, s2)))) \<and>
     (\<forall>i < length popped.
        popped ! i \<in> set (openBlocks s) \<or> (\<exists>j < i. opened_from env (popped ! j) (popped ! i))) \<and>
     (\<forall>ob \<in> set (butlast popped). \<not> reaches_goal env md peDef s ob) \<and>
     (\<forall>ob \<in> set (if r = Ok then butlast popped else popped).
        blockStates_nodeMask s' (nodeNum ob) AND PATHOPT_CLOSED \<noteq> 0)"
proof -
  assume a: "DoSearch env md peDef synced s = (r, popped, s')"
  obtain f p t where l: "DoSearch_loop env md peDef synced s = (f, p, t)"
    by (cases "DoSearch_loop env md peDef synced s") auto
  from a l have eqs: "popped = p" "s' = t"
    "r = (if f then Ok else if openBlockBuffer_size t \<ge> maxBlocksToBeSearched t then GoalOutOfRange
           else if openBlocks t = [] then GoalOutOfRange else Error)"
    by (auto simp: DoSearch_def)
  from DoSearch_loop_post[OF l] have old:
    "r \<noteq> Error \<and>
     (r = Ok \<longleftrightarrow> (\<exists>ob \<in> set popped. reaches_goal env md peDef s ob)) \<and>
     (r = Ok \<longrightarrow> popped \<noteq> [] \<and> reaches_goal env md peDef s (last popped) \<and>
        mGoalBlockIdx s' = nodeNum (last popped) \<and> mGoalHeuristic s' = 0) \<and>
     (r \<noteq> Ok \<longrightarrow> r = GoalOutOfRange \<and>
        (maxBlocksToBeSearched s' \<le> openBlockBuffer_size s' \<or> openBlocks s' = []))"
    unfolding eqs by auto
  from old have rf: "(r = Ok) = f"
    using DoSearch_loop_post[OF l] unfolding eqs by auto
  have stop: "openBlocks s = [] \<or> maxBlocksToBeSearched s \<le> openBlockBuffer_size s \<longrightarrow>
        r = GoalOutOfRange \<and> popped = [] \<and> s' = s"
    using DoSearch_stop[of s env md peDef synced] a by auto
  have step: "openBlocks s \<noteq> [] \<and> openBlockBuffer_size s < maxBlocksToBeSearched s \<longrightarrow>
        (r, popped, s') =
          (let ob = openBlocks_top (openBlocks s);
               s1 = s\<lparr>openBlocks := openBlocks_pop (openBlocks s)\<rparr>
           in if blockStates_nodeMask s (nodeNum ob) AND (PATHOPT_BLOCKED OR PATHOPT_CLOSED) \<noteq> 0
              then DoSearch env md peDef synced s1
              else if reaches_goal env md peDef s ob
              then (Ok, [ob], s1\<lparr>mGoalBlockIdx := nodeNum ob, mGoalHeuristic := 0\<rparr>)
              else (case DoSearch env md peDef synced (DoSearch_expand env md peDef synced ob s1) of
                      (r2, popped2, s2) \<Rightarrow> (r2, ob # popped2, s2)))"
  proof
    assume run: "openBlocks s \<noteq> [] \<and> openBlockBuffer_size s < maxBlocksToBeSearched s"
    show "(r, popped, s') =
          (let ob = openBlocks_top (openBlocks s);
               s1 = s\<lparr>openBlocks := openBlocks_pop (openBlocks s)\<rparr>
           in if blockStates_nodeMask s (nodeNum ob) AND (PATHOPT_BLOCKED OR PATHOPT_CLOSED) \<noteq> 0
              then DoSearch env md peDef synced s1
              else if reaches_goal env md peDef s ob
              then (Ok, [ob], s1\<lparr>mGoalBlockIdx := nodeNum ob, mGoalHeuristic := 0\<rparr>)
              else (case DoSearch env md peDef synced (DoSearch_expand env md peDef synced ob s1) of
                      (r2, popped2, s2) \<Rightarrow> (r2, ob # popped2, s2)))"
      unfolding a[symmetric] by (rule DoSearch_step[OF run])
  qed
  from DoSearch_loop_trace[OF l] have
    origin: "\<forall>i < length popped.
        popped ! i \<in> set (openBlocks s) \<or> (\<exists>j < i. opened_from env (popped ! j) (popped ! i))"
    and nogoal: "\<forall>ob \<in> set (butlast popped). \<not> reaches_goal env md peDef s ob"
    and closed: "\<forall>ob \<in> set (if r = Ok then butlast popped else popped).
        blockStates_nodeMask s' (nodeNum ob) AND PATHOPT_CLOSED \<noteq> 0"
    unfolding popped_from_def rf eqs(1,2) by blast+
  from old have o1: "r \<noteq> Error" by (rule conjunct1)
  from old have o2: "r = Ok \<longleftrightarrow> (\<exists>ob \<in> set popped. reaches_goal env md peDef s ob)"
    by (rule conjunct1[OF conjunct2])
  from old have o3: "r = Ok \<longrightarrow> popped \<noteq> [] \<and> reaches_goal env md peDef s (last popped) \<and>
        mGoalBlockIdx s' = nodeNum (last popped) \<and> mGoalHeuristic s' = 0"
    by (rule conjunct1[OF conjunct2[OF conjunct2]])
  from old have o4: "r \<noteq> Ok \<longrightarrow> r = GoalOutOfRange \<and>
        (maxBlocksToBeSearched s' \<le> openBlockBuffer_size s' \<or> openBlocks s' = [])"
    by (rule conjunct2[OF conjunct2[OF conjunct2]])
  show ?thesis
    by (intro conjI) (rule o1 o2 o3 o4 stop step origin nogoal closed)+
qed

subsection \<open>The contract of \<open>TestBlock\<close>\<close>

lemma arrival_bits:
  assumes "0 \<le> d" "d < 8"
  shows "((m AND NOT PATHOPT_CARDINALS) OR (word_of_int d OR PATHOPT_OPEN)) AND PATHOPT_CARDINALS = (word_of_int d :: 8 word)"
proof -
  have "d = 0 \<or> d = 1 \<or> d = 2 \<or> d = 3 \<or> d = 4 \<or> d = 5 \<or> d = 6 \<or> d = 7" using assms by arith
  then show ?thesis
    by (elim disjE) (simp_all add: PATHOPT_defs word_bw_assocs word_ao_dist)
qed

lemma arrival_bits_fresh:
  assumes "0 \<le> d" "d < 8" "m AND PATHOPT_CARDINALS = 0"
  shows "(m OR (word_of_int d OR PATHOPT_OPEN)) AND PATHOPT_CARDINALS = (word_of_int d :: 8 word)"
proof -
  have "(m OR (word_of_int d OR PATHOPT_OPEN)) AND PATHOPT_CARDINALS =
        (word_of_int d OR PATHOPT_OPEN) AND PATHOPT_CARDINALS"
    using assms(3) by (simp add: word_ao_dist)
  also have "\<dots> = ((0 AND NOT PATHOPT_CARDINALS) OR (word_of_int d OR PATHOPT_OPEN)) AND PATHOPT_CARDINALS"
    by simp
  also have "\<dots> = word_of_int d"
    by (rule arrival_bits[OF assms(1,2)])
  finally show ?thesis .
qed

lemma open_bit: "(m OR (k OR PATHOPT_OPEN)) AND PATHOPT_OPEN \<noteq> (0 :: 8 word)"
  by (simp add: PATHOPT_defs word_bw_assocs word_ao_dist)

text \<open>
  Claim C4. The contract of \<open>TestBlock\<close> for a parent node and a direction, in the four
  cases of the claim. Every call counts itself in \<open>testedBlocks\<close>; \<open>s_t\<close> is the state
  with only that counter advanced.
  \<^item> Rejected without any other change: the child is outside the map, or carries BLOCKED
    or CLOSED, or the vertex cost is (at least) \<open>PATHCOST_INFINITY\<close>.
  \<^item> Otherwise, if the child's representative square is not within the constraints:
    BLOCKED is set on the child, the child is appended to \<open>dirtyBlocks\<close>, rejected.
  \<^item> Otherwise, if the child is OPEN with a stored \<open>f\<close> not above the new one: accepted
    without any other change.
  \<^item> Otherwise: accepted; \<open>f\<close>, \<open>g\<close> and the parent position are stored, the node is
    appended to the open set and the child to \<open>dirtyBlocks\<close>, the child is marked OPEN,
    and its direction bits are exactly the arrival direction (the bits of an OPEN child
    are cleared first; a child that is not OPEN holds none in a search, which is the
    last hypothesis).
\<close>

theorem TestBlock_contract:
  fixes env :: "'c::{linorder, plus} Env"
  shows
  "(let block = int2_add (nodePos parent) (PE_DIRECTION_VECTORS pathDir);
        idx = BlockPosToIdx (fst (nbrOfBlocks env)) block;
        m = blockStates_nodeMask s idx;
        v = vertexCosts s (vertexIdx env md (nodeNum parent) pathDir);
        sq = blockStates_peNodeOffsets s idx (pathType md);
        g = gCost parent + (v + GetFlowCost env (fst sq) (snd sq) md pathDir +
              GetNodeExtraCost env (fst sq) (snd sq) synced);
        h = Heuristic peDef (fst sq) (snd sq);
        f = g + h;
        rejected = (outside_map env block \<or> m AND (PATHOPT_BLOCKED OR PATHOPT_CLOSED) \<noteq> 0 \<or>
                    v \<ge> PATHCOST_INFINITY env);
        s_t = s\<lparr>testedBlocks := testedBlocks s + 1\<rparr>;
        r = TestBlock env md peDef parent pathDir synced s
    in (rejected \<longrightarrow> r = (False, s_t)) \<and>
       (\<not> rejected \<and> \<not> WithinConstraints peDef (fst sq) (snd sq) \<longrightarrow>
          r = (False, s_t\<lparr>blockStates_nodeMask := (blockStates_nodeMask s)(idx := m OR PATHOPT_BLOCKED),
                        dirtyBlocks := dirtyBlocks s @ [idx]\<rparr>)) \<and>
       (\<not> rejected \<and> WithinConstraints peDef (fst sq) (snd sq) \<and>
          m AND PATHOPT_OPEN \<noteq> 0 \<and> blockStates_fCost s idx \<le> f \<longrightarrow> r = (True, s_t)) \<and>
       (\<not> rejected \<and> WithinConstraints peDef (fst sq) (snd sq) \<and>
          \<not> (m AND PATHOPT_OPEN \<noteq> 0 \<and> blockStates_fCost s idx \<le> f) \<longrightarrow>
          fst r \<and>
          blockStates_nodeMask (snd r) =
            (blockStates_nodeMask s)(idx :=
               (if m AND PATHOPT_OPEN \<noteq> 0 then m AND NOT PATHOPT_CARDINALS else m) OR
               (word_of_int pathDir OR PATHOPT_OPEN)) \<and>
          blockStates_fCost (snd r) = (blockStates_fCost s)(idx := f) \<and>
          blockStates_gCost (snd r) = (blockStates_gCost s)(idx := g) \<and>
          blockStates_peParentNodePos (snd r) = (blockStates_peParentNodePos s)(idx := nodePos parent) \<and>
          openBlocks (snd r) = openBlocks s @ [\<lparr>fCost = f, gCost = g, nodePos = block, nodeNum = idx\<rparr>] \<and>
          openBlockBuffer_size (snd r) = openBlockBuffer_size s + 1 \<and>
          dirtyBlocks (snd r) = dirtyBlocks s @ [idx] \<and>
          blockStates_nodeMask (snd r) idx AND PATHOPT_OPEN \<noteq> 0 \<and>
          (0 \<le> pathDir \<and> pathDir < 8 \<and> (m AND PATHOPT_OPEN \<noteq> 0 \<or> m AND PATHOPT_CARDINALS = 0) \<longrightarrow>
             blockStates_nodeMask (snd r) idx AND PATHOPT_CARDINALS = word_of_int pathDir)))"
proof -
  define block where "block = int2_add (nodePos parent) (PE_DIRECTION_VECTORS pathDir)"
  define idx where "idx = BlockPosToIdx (fst (nbrOfBlocks env)) block"
  define m where "m = blockStates_nodeMask s idx"
  define v where "v = vertexCosts s (vertexIdx env md (nodeNum parent) pathDir)"
  define sq where "sq = blockStates_peNodeOffsets s idx (pathType md)"
  define g where "g = gCost parent + (v + GetFlowCost env (fst sq) (snd sq) md pathDir +
              GetNodeExtraCost env (fst sq) (snd sq) synced)"
  define h where "h = Heuristic peDef (fst sq) (snd sq)"
  define f where "f = g + h"
  define rejected where "rejected = (outside_map env block \<or>
       m AND (PATHOPT_BLOCKED OR PATHOPT_CLOSED) \<noteq> 0 \<or> v \<ge> PATHCOST_INFINITY env)"
  define s_t where "s_t = s\<lparr>testedBlocks := testedBlocks s + 1\<rparr>"
  define r where "r = TestBlock env md peDef parent pathDir synced s"
  note defs = block_def idx_def m_def v_def sq_def g_def h_def f_def rejected_def s_t_def r_def
  have a: "rejected \<longrightarrow> r = (False, s_t)"
    unfolding defs by (auto simp: TestBlock_def Let_def outside_map_def)
  have b: "\<not> rejected \<and> \<not> WithinConstraints peDef (fst sq) (snd sq) \<longrightarrow>
          r = (False, s_t\<lparr>blockStates_nodeMask := (blockStates_nodeMask s)(idx := m OR PATHOPT_BLOCKED),
                        dirtyBlocks := dirtyBlocks s @ [idx]\<rparr>)"
    unfolding defs by (auto simp: TestBlock_def Let_def outside_map_def)
  have c: "\<not> rejected \<and> WithinConstraints peDef (fst sq) (snd sq) \<and>
          m AND PATHOPT_OPEN \<noteq> 0 \<and> blockStates_fCost s idx \<le> f \<longrightarrow> r = (True, s_t)"
    unfolding defs by (auto simp: TestBlock_def Let_def outside_map_def)
  have d: "\<not> rejected \<and> WithinConstraints peDef (fst sq) (snd sq) \<and>
          \<not> (m AND PATHOPT_OPEN \<noteq> 0 \<and> blockStates_fCost s idx \<le> f) \<longrightarrow>
          fst r \<and>
          blockStates_nodeMask (snd r) =
            (blockStates_nodeMask s)(idx :=
               (if m AND PATHOPT_OPEN \<noteq> 0 then m AND NOT PATHOPT_CARDINALS else m) OR
               (word_of_int pathDir OR PATHOPT_OPEN)) \<and>
          blockStates_fCost (snd r) = (blockStates_fCost s)(idx := f) \<and>
          blockStates_gCost (snd r) = (blockStates_gCost s)(idx := g) \<and>
          blockStates_peParentNodePos (snd r) = (blockStates_peParentNodePos s)(idx := nodePos parent) \<and>
          openBlocks (snd r) = openBlocks s @ [\<lparr>fCost = f, gCost = g, nodePos = block, nodeNum = idx\<rparr>] \<and>
          openBlockBuffer_size (snd r) = openBlockBuffer_size s + 1 \<and>
          dirtyBlocks (snd r) = dirtyBlocks s @ [idx]"
    unfolding defs by (auto simp: TestBlock_def Let_def outside_map_def add.assoc)
  have e: "\<not> rejected \<and> WithinConstraints peDef (fst sq) (snd sq) \<and>
          \<not> (m AND PATHOPT_OPEN \<noteq> 0 \<and> blockStates_fCost s idx \<le> f) \<longrightarrow>
          blockStates_nodeMask (snd r) idx AND PATHOPT_OPEN \<noteq> 0 \<and>
          (0 \<le> pathDir \<and> pathDir < 8 \<and> (m AND PATHOPT_OPEN \<noteq> 0 \<or> m AND PATHOPT_CARDINALS = 0) \<longrightarrow>
             blockStates_nodeMask (snd r) idx AND PATHOPT_CARDINALS = word_of_int pathDir)"
  proof (intro impI)
    assume p: "\<not> rejected \<and> WithinConstraints peDef (fst sq) (snd sq) \<and>
          \<not> (m AND PATHOPT_OPEN \<noteq> 0 \<and> blockStates_fCost s idx \<le> f)"
    with d have "blockStates_nodeMask (snd r) idx =
        (if m AND PATHOPT_OPEN \<noteq> 0 then m AND NOT PATHOPT_CARDINALS else m) OR
               (word_of_int pathDir OR PATHOPT_OPEN)"
      by simp
    then show "blockStates_nodeMask (snd r) idx AND PATHOPT_OPEN \<noteq> 0 \<and>
          (0 \<le> pathDir \<and> pathDir < 8 \<and> (m AND PATHOPT_OPEN \<noteq> 0 \<or> m AND PATHOPT_CARDINALS = 0) \<longrightarrow>
             blockStates_nodeMask (snd r) idx AND PATHOPT_CARDINALS = word_of_int pathDir)"
      by (auto simp: open_bit arrival_bits arrival_bits_fresh)
  qed
  show ?thesis
    unfolding Let_def
    using a b c d e unfolding defs by blast
qed

subsection \<open>A concrete scenario\<close>

text \<open>A map of two blocks in a row (\<open>BLOCK_SIZE = 16\<close>), one move class with uniform
  terrain, every stored vertex cost 16, a goal that accepts every square of the second
  block, and a search that starts in the first block.\<close>

definition walker :: MoveDef where
  "walker = \<lparr>pathType = 0, udRefCount = 1\<rparr>"

definition corridor_env :: "real Env" where
  "corridor_env = \<lparr>
     BLOCK_SIZE = 16, nbrOfBlocks = (2, 1), SQUARE_SIZE = 8, SQUARES_TO_UPDATE = 1000,
     PATHCOST_INFINITY = 1000000, pfUpdateRate = 1, moveDefs = [walker],
     GetPosSpeedMod = (\<lambda>md x z. 1),
     IsBlockedStructure = (\<lambda>md x z. False),
     IsBlockedStructureXmax = (\<lambda>md x z. False),
     IsBlockedStructureZmax = (\<lambda>md x z. False),
     IsBlocked_STRUCTURE = (\<lambda>md sq. False),
     GoalIsBlocked = (\<lambda>md a b. False),
     GetPath = (\<lambda>md a b. (Ok, 16)),
     GetFlowCost = (\<lambda>x z md d. 0),
     GetNodeExtraCost = (\<lambda>x z b. 0)\<rparr>"

definition corridor_goal :: "real CPathFinderDef" where
  "corridor_goal = \<lparr>
     IsGoal = (\<lambda>x z. x \<ge> 16),
     Heuristic = (\<lambda>x z. if x \<ge> 16 then 0 else 16),
     WithinConstraints = (\<lambda>x z. True),
     GoalSquareOffset = (\<lambda>bs. (8, 8))\<rparr>"

definition corridor_start :: "real CPathEstimator" where
  "corridor_start = \<lparr>
     blockStates_nodeMask = (\<lambda>i. if i = 0 then PATHOPT_OPEN else 0),
     blockStates_fCost = (\<lambda>i. 0),
     blockStates_gCost = (\<lambda>i. 0),
     blockStates_peParentNodePos = (\<lambda>i. (0, 0)),
     blockStates_peNodeOffsets = (\<lambda>i pt. (i * 16 + 8, 8)),
     blockStates_maxCostF = 0,
     blockStates_maxCostG = 0,
     vertexCosts = (\<lambda>i. 16),
     updatedBlocks = [],
     blockUpdatePenalty = 0,
     openBlocks = [\<lparr>fCost = 16, gCost = 0, nodePos = (0, 0), nodeNum = 0\<rparr>],
     openBlockBuffer_size = 1,
     maxBlocksToBeSearched = 100,
     dirtyBlocks = [0],
     mGoalBlockIdx = 0,
     mGoalHeuristic = 16,
     testedBlocks = 0\<rparr>"


definition corridor_node :: "real PathNode" where
  "corridor_node = \<lparr>fCost = 16, gCost = 0, nodePos = (0, 0), nodeNum = 0\<rparr>"

lemmas corridor_defs =
  corridor_env_def corridor_goal_def corridor_start_def corridor_node_def walker_def
  outside_map_def unsigned_cast_def int2_add_def PE_DIRECTION_VECTORS_def BlockPosToIdx_def
  vertexIdx_def GetBlockVertexOffset_def GetSize_def PATHDIR_defs PATHOPT_defs

theorem DoSearch_classification_witness:
  "fst (DoSearch corridor_env walker corridor_goal True corridor_start) = Ok \<and>
   mGoalHeuristic (snd (snd (DoSearch corridor_env walker corridor_goal True corridor_start))) = 0 \<and>
   mGoalBlockIdx (snd (snd (DoSearch corridor_env walker corridor_goal True corridor_start))) = 1 \<and>
   blockStates_nodeMask (snd (snd (DoSearch corridor_env walker corridor_goal True corridor_start))) 0
     AND PATHOPT_CLOSED \<noteq> 0 \<and>
   DoSearch corridor_env walker corridor_goal True (corridor_start\<lparr>openBlocks := []\<rparr>) =
     (GoalOutOfRange, [], corridor_start\<lparr>openBlocks := []\<rparr>)"
proof -
  let ?r = "DoSearch corridor_env walker corridor_goal True corridor_start"
  let ?e = "DoSearch corridor_env walker corridor_goal True (corridor_start\<lparr>openBlocks := []\<rparr>)"
  have ok: "fst ?r = Ok" by code_simp
  have pop: "fst (snd ?r) =
      [corridor_node, \<lparr>fCost = 16, gCost = 16, nodePos = (1, 0), nodeNum = 1\<rparr>]"
    by code_simp
  have p: "?r = (fst ?r, fst (snd ?r), snd (snd ?r))" by simp
  note t = DoSearch_classification[OF p]
  note goal = t[THEN conjunct2, THEN conjunct2, THEN conjunct1]
  note closed = t[THEN conjunct2, THEN conjunct2, THEN conjunct2, THEN conjunct2,
      THEN conjunct2, THEN conjunct2, THEN conjunct2, THEN conjunct2]
  from goal ok have a: "mGoalHeuristic (snd (snd ?r)) = 0 \<and> mGoalBlockIdx (snd (snd ?r)) = 1"
    unfolding pop by simp
  from closed have b: "blockStates_nodeMask (snd (snd ?r)) 0 AND PATHOPT_CLOSED \<noteq> 0"
    unfolding ok pop by (simp add: corridor_node_def)
  have q: "?e = (fst ?e, fst (snd ?e), snd (snd ?e))" by simp
  note stop = DoSearch_classification[OF q, THEN conjunct2, THEN conjunct2, THEN conjunct2,
      THEN conjunct2, THEN conjunct1]
  have "openBlocks (corridor_start\<lparr>openBlocks := []\<rparr>) = []" by simp
  with stop have "fst ?e = GoalOutOfRange \<and> fst (snd ?e) = [] \<and>
      snd (snd ?e) = corridor_start\<lparr>openBlocks := []\<rparr>"
    by blast
  then have c: "?e = (GoalOutOfRange, [], corridor_start\<lparr>openBlocks := []\<rparr>)"
    by (simp add: prod_eq_iff)
  from ok a b c show ?thesis by blast
qed

theorem TestBlock_contract_witness:
  "TestBlock corridor_env walker corridor_goal corridor_node PATHDIR_RIGHT True corridor_start =
     (False, corridor_start\<lparr>testedBlocks := 1\<rparr>) \<and>
   TestBlock corridor_env walker (corridor_goal\<lparr>WithinConstraints := \<lambda>x z. False\<rparr>) corridor_node
       PATHDIR_LEFT True corridor_start =
     (False, corridor_start\<lparr>testedBlocks := 1,
        blockStates_nodeMask := (blockStates_nodeMask corridor_start)(1 := PATHOPT_BLOCKED),
        dirtyBlocks := [0, 1]\<rparr>) \<and>
   TestBlock corridor_env walker corridor_goal corridor_node PATHDIR_LEFT True
       (corridor_start\<lparr>blockStates_nodeMask := (\<lambda>i. PATHOPT_OPEN)\<rparr>) =
     (True, corridor_start\<lparr>blockStates_nodeMask := (\<lambda>i. PATHOPT_OPEN), testedBlocks := 1\<rparr>) \<and>
   fst (TestBlock corridor_env walker corridor_goal corridor_node PATHDIR_LEFT True corridor_start) \<and>
   openBlocks (snd (TestBlock corridor_env walker corridor_goal corridor_node PATHDIR_LEFT True corridor_start)) =
     [corridor_node, \<lparr>fCost = 16, gCost = 16, nodePos = (1, 0), nodeNum = 1\<rparr>] \<and>
   blockStates_nodeMask (snd (TestBlock corridor_env walker corridor_goal corridor_node PATHDIR_LEFT True corridor_start)) 1
     = PATHOPT_OPEN"
proof -
  have a: "TestBlock corridor_env walker corridor_goal corridor_node PATHDIR_RIGHT True corridor_start =
     (False, corridor_start\<lparr>testedBlocks := 1\<rparr>)"
    using TestBlock_contract[where env = corridor_env and parent = corridor_node and pathDir = PATHDIR_RIGHT
        and s = corridor_start and md = walker and synced = True and peDef = corridor_goal]
    by (simp add: Let_def corridor_defs)
  have b: "TestBlock corridor_env walker (corridor_goal\<lparr>WithinConstraints := \<lambda>x z. False\<rparr>) corridor_node
       PATHDIR_LEFT True corridor_start =
     (False, corridor_start\<lparr>testedBlocks := 1,
        blockStates_nodeMask := (blockStates_nodeMask corridor_start)(1 := PATHOPT_BLOCKED),
        dirtyBlocks := [0, 1]\<rparr>)"
    using TestBlock_contract[where env = corridor_env and parent = corridor_node and pathDir = PATHDIR_LEFT
        and s = corridor_start and md = walker and synced = True
        and peDef = "corridor_goal\<lparr>WithinConstraints := \<lambda>x z. False\<rparr>"]
    by (simp add: Let_def corridor_defs)
  have c: "TestBlock corridor_env walker corridor_goal corridor_node PATHDIR_LEFT True
       (corridor_start\<lparr>blockStates_nodeMask := (\<lambda>i. PATHOPT_OPEN)\<rparr>) =
     (True, corridor_start\<lparr>blockStates_nodeMask := (\<lambda>i. PATHOPT_OPEN), testedBlocks := 1\<rparr>)"
    using TestBlock_contract[where env = corridor_env and parent = corridor_node and pathDir = PATHDIR_LEFT
        and s = "corridor_start\<lparr>blockStates_nodeMask := (\<lambda>i. PATHOPT_OPEN)\<rparr>"
        and md = walker and synced = True and peDef = corridor_goal]
    by (simp add: Let_def corridor_defs)
  have d: "fst (TestBlock corridor_env walker corridor_goal corridor_node PATHDIR_LEFT True corridor_start) \<and>
   openBlocks (snd (TestBlock corridor_env walker corridor_goal corridor_node PATHDIR_LEFT True corridor_start)) =
     [corridor_node, \<lparr>fCost = 16, gCost = 16, nodePos = (1, 0), nodeNum = 1\<rparr>] \<and>
   blockStates_nodeMask (snd (TestBlock corridor_env walker corridor_goal corridor_node PATHDIR_LEFT True corridor_start)) 1
     = PATHOPT_OPEN"
    using TestBlock_contract[where env = corridor_env and parent = corridor_node and pathDir = PATHDIR_LEFT
        and s = corridor_start and md = walker and synced = True and peDef = corridor_goal]
    by (simp add: Let_def corridor_defs)
  from a b c d show ?thesis by blast
qed

subsection \<open>Properties of \<open>FindOffset\<close>\<close>

text \<open>The invariant of both loops for the bounds: the best position is a local offset
  inside the block.\<close>

definition best_in_block :: "int \<Rightarrow> FindOffsetVars \<Rightarrow> bool" where
  "best_in_block bs v \<longleftrightarrow> 0 \<le> bestPosX v \<and> bestPosX v < bs \<and> 0 \<le> bestPosZ v \<and> bestPosZ v < bs"

lemma FindOffset_x_in_block:
  assumes "best_in_block (BLOCK_SIZE env) v" "0 \<le> x" "x < BLOCK_SIZE env" "0 \<le> z" "z < BLOCK_SIZE env"
  shows "best_in_block (BLOCK_SIZE env) (FindOffset_x env md lx lz area z x v)"
  using assms by (simp add: best_in_block_def FindOffset_x_def Let_def)

lemma fold_x_in_block:
  assumes "\<forall>x \<in> set xs. 0 \<le> x \<and> x < BLOCK_SIZE env" "0 \<le> z" "z < BLOCK_SIZE env"
    "best_in_block (BLOCK_SIZE env) v"
  shows "best_in_block (BLOCK_SIZE env) (fold (FindOffset_x env md lx lz area z) xs v)"
  using assms by (induction xs arbitrary: v) (simp_all add: FindOffset_x_in_block)

lemma FindOffset_z_in_block:
  assumes "best_in_block (BLOCK_SIZE env) v" "0 \<le> z" "z < BLOCK_SIZE env"
  shows "best_in_block (BLOCK_SIZE env) (FindOffset_z env md lx lz area z v)"
proof -
  have "best_in_block (BLOCK_SIZE env)
          (fold (FindOffset_x env md lx lz area z) [0..BLOCK_SIZE env - 1] v)"
    using assms by (intro fold_x_in_block) auto
  then show ?thesis
    by (simp add: FindOffset_z_def Let_def best_in_block_def)
qed

lemma fold_z_in_block:
  assumes "\<forall>z \<in> set zs. 0 \<le> z \<and> z < BLOCK_SIZE env" "best_in_block (BLOCK_SIZE env) v"
  shows "best_in_block (BLOCK_SIZE env) (fold (FindOffset_z env md lx lz area) zs v)"
  using assms by (induction zs arbitrary: v) (simp_all add: FindOffset_z_in_block)

lemma FindOffset_bounds:
  assumes "0 < BLOCK_SIZE env"
  shows "bx * BLOCK_SIZE env \<le> fst (FindOffset env md bx bz) \<and>
         fst (FindOffset env md bx bz) < (bx + 1) * BLOCK_SIZE env \<and>
         bz * BLOCK_SIZE env \<le> snd (FindOffset env md bx bz) \<and>
         snd (FindOffset env md bx bz) < (bz + 1) * BLOCK_SIZE env"
proof -
  define sm where "sm = GetPosSpeedMod env md (bx * BLOCK_SIZE env) (bz * BLOCK_SIZE env)"
  define v0 where "v0 = \<lparr>bestCost = FLT_MAX,
                bestPosX = drop_bit 1 (BLOCK_SIZE env),
                bestPosZ = drop_bit 1 (BLOCK_SIZE env),
                speedMod = sm,
                curblock = (sm = 0) \<or> IsBlockedStructure env md (bx * BLOCK_SIZE env) (bz * BLOCK_SIZE env)\<rparr>"
  define v where "v = fold (FindOffset_z env md (bx * BLOCK_SIZE env) (bz * BLOCK_SIZE env)
       ((BLOCK_SIZE env * BLOCK_SIZE env) div SQUARE_SIZE env)) [0..BLOCK_SIZE env - 1] v0"
  have r: "FindOffset env md bx bz = (bx * BLOCK_SIZE env + bestPosX v, bz * BLOCK_SIZE env + bestPosZ v)"
    by (simp add: FindOffset_def Let_def v_def v0_def sm_def)
  have "best_in_block (BLOCK_SIZE env) v0"
    using assms by (simp add: best_in_block_def v0_def drop_bit_eq_div)
  then have "best_in_block (BLOCK_SIZE env) v"
    unfolding v_def by (intro fold_z_in_block) auto
  then show ?thesis
    unfolding r by (simp add: best_in_block_def algebra_simps)
qed


text \<open>No square of the block is traversable; and the invariant of both loops in that case:
  the scan is in the blocked state and the best position is still the initial one.\<close>

definition block_all_blocked :: "'c Env \<Rightarrow> MoveDef \<Rightarrow> int \<Rightarrow> int \<Rightarrow> bool" where
  "block_all_blocked env md bx bz \<longleftrightarrow>
     (\<forall>x \<in> {0..BLOCK_SIZE env - 1}. \<forall>z \<in> {0..BLOCK_SIZE env - 1}.
        square_blocked env md (bx * BLOCK_SIZE env + x) (bz * BLOCK_SIZE env + z))"

definition still_centre :: "int \<Rightarrow> FindOffsetVars \<Rightarrow> bool" where
  "still_centre bs v \<longleftrightarrow> curblock v \<and> bestPosX v = drop_bit 1 bs \<and> bestPosZ v = drop_bit 1 bs"

lemma FindOffset_x_blocked:
  assumes "still_centre bs v" "square_blocked env md (lx + x) (lz + z)"
  shows "still_centre bs (FindOffset_x env md lx lz area z x v)"
  using assms by (auto simp: FindOffset_x_def Let_def square_blocked_def still_centre_def)

lemma fold_x_blocked:
  assumes "\<forall>x \<in> set xs. square_blocked env md (lx + x) (lz + z)" "still_centre bs v"
  shows "still_centre bs (fold (FindOffset_x env md lx lz area z) xs v)"
  using assms by (induction xs arbitrary: v) (simp_all add: FindOffset_x_blocked)

lemma FindOffset_z_blocked:
  assumes "\<forall>x \<in> {0..BLOCK_SIZE env - 1}. square_blocked env md (lx + x) (lz + z)"
    "0 < BLOCK_SIZE env" "still_centre bs v"
  shows "still_centre bs (FindOffset_z env md lx lz area z v)"
proof -
  have f: "still_centre bs (fold (FindOffset_x env md lx lz area z) [0..BLOCK_SIZE env - 1] v)"
    using assms by (intro fold_x_blocked) auto
  have "(0::int) \<in> {0..BLOCK_SIZE env - 1}"
    using assms(2) by simp
  with assms(1) have "square_blocked env md (lx + 0) (lz + z)"
    by blast
  then show ?thesis
    using f assms(3)
    by (auto simp: FindOffset_z_def Let_def still_centre_def square_blocked_def)
qed

lemma fold_z_blocked:
  assumes "\<forall>z \<in> set zs. \<forall>x \<in> {0..BLOCK_SIZE env - 1}. square_blocked env md (lx + x) (lz + z)"
    "0 < BLOCK_SIZE env" "still_centre bs v"
  shows "still_centre bs (fold (FindOffset_z env md lx lz area) zs v)"
  using assms by (induction zs arbitrary: v) (simp_all add: FindOffset_z_blocked)

lemma FindOffset_fallback:
  assumes "0 < BLOCK_SIZE env" "block_all_blocked env md bx bz"
  shows "FindOffset env md bx bz =
           (bx * BLOCK_SIZE env + drop_bit 1 (BLOCK_SIZE env),
            bz * BLOCK_SIZE env + drop_bit 1 (BLOCK_SIZE env))"
proof -
  define sm where "sm = GetPosSpeedMod env md (bx * BLOCK_SIZE env) (bz * BLOCK_SIZE env)"
  define v0 where "v0 = \<lparr>bestCost = FLT_MAX,
                bestPosX = drop_bit 1 (BLOCK_SIZE env),
                bestPosZ = drop_bit 1 (BLOCK_SIZE env),
                speedMod = sm,
                curblock = (sm = 0) \<or> IsBlockedStructure env md (bx * BLOCK_SIZE env) (bz * BLOCK_SIZE env)\<rparr>"
  define v where "v = fold (FindOffset_z env md (bx * BLOCK_SIZE env) (bz * BLOCK_SIZE env)
       ((BLOCK_SIZE env * BLOCK_SIZE env) div SQUARE_SIZE env)) [0..BLOCK_SIZE env - 1] v0"
  have r: "FindOffset env md bx bz = (bx * BLOCK_SIZE env + bestPosX v, bz * BLOCK_SIZE env + bestPosZ v)"
    by (simp add: FindOffset_def Let_def v_def v0_def sm_def)
  have "(0::int) \<in> {0..BLOCK_SIZE env - 1}"
    using assms(1) by simp
  with assms(2) have "square_blocked env md (bx * BLOCK_SIZE env + 0) (bz * BLOCK_SIZE env + 0)"
    unfolding block_all_blocked_def by blast
  then have "still_centre (BLOCK_SIZE env) v0"
    by (simp add: still_centre_def v0_def sm_def square_blocked_def)
  then have "still_centre (BLOCK_SIZE env) v"
    unfolding v_def using assms by (intro fold_z_blocked) (auto simp: block_all_blocked_def)
  then show ?thesis
    unfolding r by (simp add: still_centre_def)
qed


text \<open>Two environments give the offset finder the same inputs for a block.\<close>

definition same_inputs :: "'a Env \<Rightarrow> 'b Env \<Rightarrow> MoveDef \<Rightarrow> int \<Rightarrow> int \<Rightarrow> bool" where
  "same_inputs env env' md bx bz \<longleftrightarrow>
     BLOCK_SIZE env = BLOCK_SIZE env' \<and> SQUARE_SIZE env = SQUARE_SIZE env' \<and>
     (\<forall>x \<in> {0..BLOCK_SIZE env - 1}. \<forall>z \<in> {0..BLOCK_SIZE env - 1}.
        GetPosSpeedMod env md (bx * BLOCK_SIZE env + x) (bz * BLOCK_SIZE env + z) =
          GetPosSpeedMod env' md (bx * BLOCK_SIZE env + x) (bz * BLOCK_SIZE env + z) \<and>
        IsBlockedStructure env md (bx * BLOCK_SIZE env + x) (bz * BLOCK_SIZE env + z) =
          IsBlockedStructure env' md (bx * BLOCK_SIZE env + x) (bz * BLOCK_SIZE env + z) \<and>
        IsBlockedStructureXmax env md (bx * BLOCK_SIZE env + x) (bz * BLOCK_SIZE env + z) =
          IsBlockedStructureXmax env' md (bx * BLOCK_SIZE env + x) (bz * BLOCK_SIZE env + z) \<and>
        IsBlockedStructureZmax env md (bx * BLOCK_SIZE env + x) (bz * BLOCK_SIZE env + z) =
          IsBlockedStructureZmax env' md (bx * BLOCK_SIZE env + x) (bz * BLOCK_SIZE env + z))"

lemma FindOffset_x_cong:
  assumes "same_inputs env env' md bx bz" "x \<in> {0..BLOCK_SIZE env - 1}" "z \<in> {0..BLOCK_SIZE env - 1}"
  shows "FindOffset_x env md (bx * BLOCK_SIZE env) (bz * BLOCK_SIZE env) area z x v =
         FindOffset_x env' md (bx * BLOCK_SIZE env) (bz * BLOCK_SIZE env) area z x v"
proof -
  have bs: "BLOCK_SIZE env' = BLOCK_SIZE env"
    using assms(1) by (simp add: same_inputs_def)
  have q: "GetPosSpeedMod env md (bx * BLOCK_SIZE env + x) (bz * BLOCK_SIZE env + z) =
          GetPosSpeedMod env' md (bx * BLOCK_SIZE env + x) (bz * BLOCK_SIZE env + z) \<and>
        IsBlockedStructure env md (bx * BLOCK_SIZE env + x) (bz * BLOCK_SIZE env + z) =
          IsBlockedStructure env' md (bx * BLOCK_SIZE env + x) (bz * BLOCK_SIZE env + z) \<and>
        IsBlockedStructureXmax env md (bx * BLOCK_SIZE env + x) (bz * BLOCK_SIZE env + z) =
          IsBlockedStructureXmax env' md (bx * BLOCK_SIZE env + x) (bz * BLOCK_SIZE env + z)"
    using assms unfolding same_inputs_def by blast
  show ?thesis
    unfolding FindOffset_x_def Let_def bs using q by simp
qed

lemma fold_x_cong:
  assumes "same_inputs env env' md bx bz" "set xs \<subseteq> {0..BLOCK_SIZE env - 1}" "z \<in> {0..BLOCK_SIZE env - 1}"
  shows "fold (FindOffset_x env md (bx * BLOCK_SIZE env) (bz * BLOCK_SIZE env) area z) xs v =
         fold (FindOffset_x env' md (bx * BLOCK_SIZE env) (bz * BLOCK_SIZE env) area z) xs v"
  using assms(2)
proof (induction xs arbitrary: v)
  case Nil
  show ?case by simp
next
  case (Cons x xs)
  then have x: "x \<in> {0..BLOCK_SIZE env - 1}" and xs: "set xs \<subseteq> {0..BLOCK_SIZE env - 1}"
    by auto
  show ?case
    by (simp add: FindOffset_x_cong[OF assms(1) x assms(3)] Cons.IH[OF xs])
qed

lemma FindOffset_z_cong:
  assumes "same_inputs env env' md bx bz" "z \<in> {0..BLOCK_SIZE env - 1}"
  shows "FindOffset_z env md (bx * BLOCK_SIZE env) (bz * BLOCK_SIZE env) area z v =
         FindOffset_z env' md (bx * BLOCK_SIZE env) (bz * BLOCK_SIZE env) area z v"
proof -
  have bs: "BLOCK_SIZE env' = BLOCK_SIZE env"
    using assms(1) by (simp add: same_inputs_def)
  have z0: "(0::int) \<in> {0..BLOCK_SIZE env - 1}"
    using assms(2) by auto
  have f: "fold (FindOffset_x env md (bx * BLOCK_SIZE env) (bz * BLOCK_SIZE env) area z) [0..BLOCK_SIZE env - 1] v =
         fold (FindOffset_x env' md (bx * BLOCK_SIZE env) (bz * BLOCK_SIZE env) area z) [0..BLOCK_SIZE env - 1] v"
    by (rule fold_x_cong[OF assms(1) _ assms(2)]) simp
  have q: "GetPosSpeedMod env md (bx * BLOCK_SIZE env + 0) (bz * BLOCK_SIZE env + z) =
          GetPosSpeedMod env' md (bx * BLOCK_SIZE env + 0) (bz * BLOCK_SIZE env + z) \<and>
        IsBlockedStructure env md (bx * BLOCK_SIZE env + 0) (bz * BLOCK_SIZE env + z) =
          IsBlockedStructure env' md (bx * BLOCK_SIZE env + 0) (bz * BLOCK_SIZE env + z) \<and>
        IsBlockedStructureZmax env md (bx * BLOCK_SIZE env + 0) (bz * BLOCK_SIZE env + z) =
          IsBlockedStructureZmax env' md (bx * BLOCK_SIZE env + 0) (bz * BLOCK_SIZE env + z)"
    using assms(1) z0 assms(2) unfolding same_inputs_def by blast
  show ?thesis
    unfolding FindOffset_z_def Let_def bs f using q by simp
qed

lemma fold_z_cong:
  assumes "same_inputs env env' md bx bz" "set zs \<subseteq> {0..BLOCK_SIZE env - 1}"
  shows "fold (FindOffset_z env md (bx * BLOCK_SIZE env) (bz * BLOCK_SIZE env) area) zs v =
         fold (FindOffset_z env' md (bx * BLOCK_SIZE env) (bz * BLOCK_SIZE env) area) zs v"
  using assms(2)
proof (induction zs arbitrary: v)
  case Nil
  show ?case by simp
next
  case (Cons z zs)
  then have z: "z \<in> {0..BLOCK_SIZE env - 1}" and zs: "set zs \<subseteq> {0..BLOCK_SIZE env - 1}"
    by auto
  show ?case
    by (simp add: FindOffset_z_cong[OF assms(1) z] Cons.IH[OF zs])
qed

lemma FindOffset_cong:
  assumes "same_inputs env env' md bx bz"
  shows "FindOffset env md bx bz = FindOffset env' md bx bz"
proof (cases "0 < BLOCK_SIZE env")
  case False
  then have e: "[0..BLOCK_SIZE env - 1] = []" by simp
  have bs: "BLOCK_SIZE env' = BLOCK_SIZE env"
    using assms by (simp add: same_inputs_def)
  show ?thesis
    unfolding FindOffset_def Let_def bs e by simp
next
  case True
  have bs: "BLOCK_SIZE env' = BLOCK_SIZE env" and sq: "SQUARE_SIZE env' = SQUARE_SIZE env"
    using assms by (simp_all add: same_inputs_def)
  have z0: "(0::int) \<in> {0..BLOCK_SIZE env - 1}"
    using True by auto
  have q: "GetPosSpeedMod env md (bx * BLOCK_SIZE env + 0) (bz * BLOCK_SIZE env + 0) =
          GetPosSpeedMod env' md (bx * BLOCK_SIZE env + 0) (bz * BLOCK_SIZE env + 0) \<and>
        IsBlockedStructure env md (bx * BLOCK_SIZE env + 0) (bz * BLOCK_SIZE env + 0) =
          IsBlockedStructure env' md (bx * BLOCK_SIZE env + 0) (bz * BLOCK_SIZE env + 0)"
    using assms z0 unfolding same_inputs_def by blast
  have f: "fold (FindOffset_z env md (bx * BLOCK_SIZE env) (bz * BLOCK_SIZE env) area) [0..BLOCK_SIZE env - 1] v =
         fold (FindOffset_z env' md (bx * BLOCK_SIZE env) (bz * BLOCK_SIZE env) area) [0..BLOCK_SIZE env - 1] v"
    for area v
    by (rule fold_z_cong[OF assms]) simp
  show ?thesis
    unfolding FindOffset_def Let_def bs sq f using q by simp
qed


text \<open>A block of side 4 whose only traversable square is its corner \<open>(0, 0)\<close>: every other
  square has speed modifier 0; no structures.\<close>

definition lone_square_env :: "real Env" where
  "lone_square_env = corridor_env\<lparr>
     BLOCK_SIZE := 4, nbrOfBlocks := (1, 1),
     GetPosSpeedMod := (\<lambda>md x z. if x = 0 \<and> z = 0 then 1 else 0)\<rparr>"

text \<open>
  Claim C5 (does not hold of the code). In \<open>FindOffset\<close> the variables \<open>speedMod\<close> and
  \<open>curblock\<close> are refreshed at the end of an iteration from the square just visited, so
  the test and the score at square \<open>(x, z)\<close> use the state of the square visited before
  it. On the block whose only traversable square is \<open>(0, 0)\<close> the source returns square
  \<open>(1, 0)\<close>, which is blocked, where the algorithm of the claim returns \<open>(0, 0)\<close>.
\<close>

theorem FindOffset_scores_previous_square:
  "FindOffset lone_square_env walker 0 0 = (1, 0) \<and>
   square_blocked lone_square_env walker 1 0 \<and>
   \<not> square_blocked lone_square_env walker 0 0 \<and>
   spec_FindOffset lone_square_env walker 0 0 = (0, 0)"
  by code_simp

text \<open>
  Claim C10. For a positive \<open>BLOCK_SIZE\<close>, \<open>FindOffset\<close> returns absolute map coordinates
  inside the queried block: \<open>bx * BLOCK_SIZE \<le> sx < (bx + 1) * BLOCK_SIZE\<close> and the same for
  \<open>z\<close>. When no square of the block is traversable the result is the block's corner plus
  the local offset \<open>(BLOCK_SIZE / 2, BLOCK_SIZE / 2)\<close>.
\<close>

theorem FindOffset_in_block:
  assumes "0 < BLOCK_SIZE env"
  shows "bx * BLOCK_SIZE env \<le> fst (FindOffset env md bx bz) \<and>
         fst (FindOffset env md bx bz) < (bx + 1) * BLOCK_SIZE env \<and>
         bz * BLOCK_SIZE env \<le> snd (FindOffset env md bx bz) \<and>
         snd (FindOffset env md bx bz) < (bz + 1) * BLOCK_SIZE env \<and>
         (block_all_blocked env md bx bz \<longrightarrow>
            FindOffset env md bx bz =
              (bx * BLOCK_SIZE env + BLOCK_SIZE env div 2,
               bz * BLOCK_SIZE env + BLOCK_SIZE env div 2))"
  using FindOffset_bounds[OF assms, of bx md bz] FindOffset_fallback[OF assms, of md bx bz]
  by (simp add: drop_bit_eq_div)

theorem FindOffset_in_block_witness:
  "0 \<le> fst (FindOffset lone_square_env walker 0 0) \<and>
   fst (FindOffset lone_square_env walker 0 0) < 4 \<and>
   FindOffset (corridor_env\<lparr>GetPosSpeedMod := (\<lambda>md x z. 0)\<rparr>) walker 1 0 = (24, 8)"
proof -
  have bs: "0 < BLOCK_SIZE lone_square_env"
    by (simp add: lone_square_env_def)
  have bs': "0 < BLOCK_SIZE (corridor_env\<lparr>GetPosSpeedMod := (\<lambda>md x z. 0)\<rparr>)"
    by (simp add: corridor_env_def)
  have b: "block_all_blocked (corridor_env\<lparr>GetPosSpeedMod := (\<lambda>md x z. 0)\<rparr>) walker 1 0"
    by (simp add: block_all_blocked_def square_blocked_def)
  from FindOffset_in_block[OF bs, of 0 walker 0] FindOffset_in_block[OF bs', of 1 walker 0] b
  show ?thesis
    by (simp add: lone_square_env_def corridor_env_def)
qed

text \<open>
  Claim C9. \<open>FindOffset\<close> reads nothing of the estimator's state (it has no state
  argument) and of the map only the block it is asked about: two environments that agree
  on \<open>BLOCK_SIZE\<close>, \<open>SQUARE_SIZE\<close> and the terrain queries for the move class on the squares
  of the block give the same result. In particular two invocations for the same block
  and move class scheduled by \<open>Update\<close>, in whatever estimator states \<open>s\<close> and \<open>s'\<close> they
  run, write the same value to the block's offset.
\<close>

theorem FindOffset_deterministic:
  assumes "same_inputs env env' md bx bz"
  shows "FindOffset env md bx bz = FindOffset env' md bx bz \<and>
     blockStates_peNodeOffsets (Update_offset env \<lparr>sb_blockPos = (bx, bz), sb_moveDef = md\<rparr> s)
        (BlockPosToIdx (fst (nbrOfBlocks env)) (bx, bz)) (pathType md) =
     blockStates_peNodeOffsets (Update_offset env' \<lparr>sb_blockPos = (bx, bz), sb_moveDef = md\<rparr> s')
        (BlockPosToIdx (fst (nbrOfBlocks env')) (bx, bz)) (pathType md)"
  using FindOffset_cong[OF assms] by (simp add: Update_offset_def Let_def)

theorem FindOffset_deterministic_witness:
  "FindOffset (lone_square_env\<lparr>GetPosSpeedMod := (\<lambda>md x z. if x = 0 \<and> z = 0 then 1 else if x \<ge> 4 then 7 else 0)\<rparr>)
      walker 0 0 = (1, 0)"
proof -
  have "same_inputs lone_square_env
      (lone_square_env\<lparr>GetPosSpeedMod := (\<lambda>md x z. if x = 0 \<and> z = 0 then 1 else if x \<ge> 4 then 7 else 0)\<rparr>)
      walker 0 0"
    by (simp add: same_inputs_def lone_square_env_def)
  from FindOffset_deterministic[OF this, of corridor_start corridor_start]
  have "FindOffset lone_square_env walker 0 0 =
     FindOffset (lone_square_env\<lparr>GetPosSpeedMod := (\<lambda>md x z. if x = 0 \<and> z = 0 then 1 else if x \<ge> 4 then 7 else 0)\<rparr>)
      walker 0 0"
    by simp
  moreover have "FindOffset lone_square_env walker 0 0 = (1, 0)"
    by code_simp
  ultimately show ?thesis by simp
qed

subsection \<open>What \<open>CalculateVertex\<close> stores\<close>

text \<open>
  Claim C6. After \<open>CalculateVertex\<close> for a move class, a parent block and a direction, the
  slot of that vertex holds \<open>PATHCOST_INFINITY\<close> when the child block is outside the map,
  when the start square is blocked by a structure or the goal is, and when the fine
  search does not return \<open>Ok\<close>; it holds the cost of the path found when the search
  returns \<open>Ok\<close>. No other slot and nothing else of the estimator changes.
\<close>

theorem CalculateVertex_stores:
  "(let nx = fst (nbrOfBlocks env);
        childBlock = int2_add parentBlock (PE_DIRECTION_VECTORS direction);
        parentSquare = blockStates_peNodeOffsets s (BlockPosToIdx nx parentBlock) (pathType md);
        childSquare = blockStates_peNodeOffsets s (BlockPosToIdx nx childBlock) (pathType md);
        slot = vertexNbr env md (BlockPosToIdx nx parentBlock) direction;
        s' = CalculateVertex env md parentBlock direction s
    in vertexCosts s' slot =
         (if outside_map env childBlock then PATHCOST_INFINITY env
          else if IsBlocked_STRUCTURE env md parentSquare \<or> GoalIsBlocked env md parentSquare childSquare
            then PATHCOST_INFINITY env
          else if fst (GetPath env md parentSquare childSquare) = Ok
            then snd (GetPath env md parentSquare childSquare)
          else PATHCOST_INFINITY env) \<and>
       (\<forall>i. i \<noteq> slot \<longrightarrow> vertexCosts s' i = vertexCosts s i) \<and>
       s'\<lparr>vertexCosts := vertexCosts s\<rparr> = s)"
  by (simp add: CalculateVertex_def Let_def split: prod.split)

theorem CalculateVertex_stores_witness:
  "vertexCosts (CalculateVertex corridor_env walker (0, 0) PATHDIR_LEFT
       (corridor_start\<lparr>vertexCosts := (\<lambda>i. 0)\<rparr>)) 0 = 16 \<and>
   vertexCosts (CalculateVertex corridor_env walker (0, 0) PATHDIR_UP
       (corridor_start\<lparr>vertexCosts := (\<lambda>i. 0)\<rparr>)) 2 = 1000000 \<and>
   vertexCosts (CalculateVertex corridor_env walker (0, 0) PATHDIR_UP
       (corridor_start\<lparr>vertexCosts := (\<lambda>i. 0)\<rparr>)) 0 = 0"
  using CalculateVertex_stores[of corridor_env "(0, 0)" PATHDIR_LEFT "corridor_start\<lparr>vertexCosts := (\<lambda>i. 0)\<rparr>" walker]
    CalculateVertex_stores[of corridor_env "(0, 0)" PATHDIR_UP "corridor_start\<lparr>vertexCosts := (\<lambda>i. 0)\<rparr>" walker]
  by (simp add: Let_def corridor_defs vertexNbr_def)



subsection \<open>Symmetry of the vertex-cost lookup\<close>

lemma unsigned_cast_add_right: "unsigned_cast (a + unsigned_cast b) = unsigned_cast (a + b)"
  by (simp add: unsigned_cast_def mod_add_right_eq)

lemma dir_cases:
  "0 \<le> d \<Longrightarrow> d < 8 \<Longrightarrow> d = 0 \<or> d = 1 \<or> d = 2 \<or> d = 3 \<or> d = 4 \<or> d = 5 \<or> d = 6 \<or> d = (7::int)"
  by arith

lemma opposite_range: "0 \<le> d \<Longrightarrow> d < 8 \<Longrightarrow> 0 \<le> opposite d \<and> opposite d < 8"
  by (auto simp: opposite_def)

lemma opposite_negates:
  assumes "0 \<le> d" "d < 8"
  shows "PE_DIRECTION_VECTORS (opposite d) =
           (- fst (PE_DIRECTION_VECTORS d), - snd (PE_DIRECTION_VECTORS d))"
  using dir_cases[OF assms] by (auto simp: PE_DIRECTION_VECTORS_def opposite_def)

text \<open>The value of \<open>GetBlockVertexOffset\<close> before the conversion to \<open>unsigned int\<close>: a stored
  direction is its own slot; another direction is the slot of its opposite, in the block
  one step along.\<close>

definition signed_offset :: "int \<Rightarrow> int \<Rightarrow> int" where
  "signed_offset d nx =
     (if d < 4 then d
      else opposite d +
           PATH_DIRECTION_VERTICES * BlockPosToIdx nx (PE_DIRECTION_VECTORS d))"

lemma GetBlockVertexOffset_signed:
  assumes "0 \<le> d" "d < 8"
  shows "GetBlockVertexOffset d nx = unsigned_cast (signed_offset d nx)"
  using dir_cases[OF assms]
  by (auto simp: GetBlockVertexOffset_def signed_offset_def PATHDIR_defs PE_DIRECTION_VECTORS_def
       opposite_def BlockPosToIdx_def intro!: arg_cong[where f = unsigned_cast])

lemma vertexIdx_signed:
  assumes "0 \<le> d" "d < 8"
  shows "vertexIdx env md n d = unsigned_cast
           (pathType md * GetSize env * PATH_DIRECTION_VERTICES + n * PATH_DIRECTION_VERTICES +
            signed_offset d (fst (nbrOfBlocks env)))"
  by (simp add: vertexIdx_def GetBlockVertexOffset_signed[OF assms] unsigned_cast_add_right)

lemma vertexIdx_stored:
  assumes "0 \<le> d" "d < 4"
  shows "vertexIdx env md n d = vertexNbr env md n d"
  using assms by (simp add: vertexIdx_signed vertexNbr_def signed_offset_def)

lemma vertexIdx_mirrored:
  assumes "4 \<le> d" "d < 8"
  shows "vertexIdx env md (BlockPosToIdx (fst (nbrOfBlocks env)) a) d =
         vertexNbr env md
           (BlockPosToIdx (fst (nbrOfBlocks env)) (int2_add a (PE_DIRECTION_VECTORS d))) (opposite d)"
proof -
  have d: "0 \<le> d" using assms by simp
  show ?thesis
    unfolding vertexIdx_signed[OF d assms(2)] vertexNbr_def
    using assms
    by (intro arg_cong[where f = unsigned_cast])
       (simp add: signed_offset_def BlockPosToIdx_def int2_add_def algebra_simps)
qed

text \<open>
  Claim C1. For a move class \<open>c\<close>, two blocks \<open>a\<close> and \<open>b\<close> inside the map with
  \<open>b = a + \<Delta>(d)\<close>, the lookup of \<open>TestBlock\<close> from \<open>a\<close> in direction \<open>d\<close> and the lookup
  from \<open>b\<close> in the opposite direction give the same cost: both read the one slot that
  \<open>CalculateVertex\<close> writes for the edge, the slot of the stored direction at the block
  that stores it.
\<close>

theorem vertex_cost_symmetry:
  assumes "0 \<le> d" "d < 8"
    and "\<not> outside_map env a" "\<not> outside_map env b"
    and "b = int2_add a (PE_DIRECTION_VECTORS d)"
  shows "vertex_cost env s c a d = vertex_cost env s c b (opposite d) \<and>
         vertex_cost env s c a d =
           vertexCosts s
             (if d < 4 then vertexNbr env c (BlockPosToIdx (fst (nbrOfBlocks env)) a) d
              else vertexNbr env c (BlockPosToIdx (fst (nbrOfBlocks env)) b) (opposite d))"
proof (cases "d < 4")
  case True
  then have o: "4 \<le> opposite d" "opposite d < 8"
    using assms(1) by (auto simp: opposite_def)
  have ret: "int2_add b (PE_DIRECTION_VECTORS (opposite d)) = a"
    by (simp add: assms(5) opposite_negates[OF assms(1,2)] int2_add_def)
  have oo: "opposite (opposite d) = d"
    using True assms(1) by (simp add: opposite_def)
  show ?thesis
    using True
    by (simp add: vertex_cost_def vertexIdx_stored[OF assms(1) True]
        vertexIdx_mirrored[OF o] ret oo)
next
  case False
  then have d: "4 \<le> d" by simp
  have o: "0 \<le> opposite d" "opposite d < 4"
    using d assms(2) by (auto simp: opposite_def)
  show ?thesis
    using False
    by (simp add: vertex_cost_def vertexIdx_stored[OF o] vertexIdx_mirrored[OF d assms(2)] assms(5))
qed

theorem vertex_cost_symmetry_witness:
  "vertex_cost corridor_env (corridor_start\<lparr>vertexCosts := real_of_int\<rparr>) walker (1, 0) PATHDIR_RIGHT =
     vertex_cost corridor_env (corridor_start\<lparr>vertexCosts := real_of_int\<rparr>) walker (0, 0) PATHDIR_LEFT \<and>
   vertex_cost corridor_env (corridor_start\<lparr>vertexCosts := real_of_int\<rparr>) walker (1, 0) PATHDIR_RIGHT = 0"
proof -
  let ?s = "corridor_start\<lparr>vertexCosts := real_of_int\<rparr>"
  have d: "0 \<le> PATHDIR_RIGHT" "PATHDIR_RIGHT < 8"
    by (simp_all add: PATHDIR_RIGHT_def)
  have a: "\<not> outside_map corridor_env (1, 0)"
    by code_simp
  have b: "\<not> outside_map corridor_env (0, 0)"
    by code_simp
  have e: "(0, 0) = int2_add (1, 0) (PE_DIRECTION_VECTORS PATHDIR_RIGHT)"
    by code_simp
  have o: "opposite PATHDIR_RIGHT = PATHDIR_LEFT"
    by (simp add: opposite_def PATHDIR_defs)
  have v: "vertex_cost corridor_env ?s walker (0, 0) PATHDIR_LEFT = 0"
    by code_simp
  from vertex_cost_symmetry[OF d a b e, of ?s walker]
  have "vertex_cost corridor_env ?s walker (1, 0) PATHDIR_RIGHT =
        vertex_cost corridor_env ?s walker (0, 0) (opposite PATHDIR_RIGHT)"
    by (rule conjunct1)
  with o v show ?thesis by simp
qed


subsection \<open>The clamp of the update budget\<close>

text \<open>
  Claim C8 as stated fails for \<open>BLOCKS_TO_UPDATE = 1\<close>, which is the value for every
  \<open>BLOCK_SIZE\<close> whose square exceeds \<open>SQUARES_TO_UPDATE\<close> (here 1000 and 32): the budget
  is 4, above \<open>BLOCKS_TO_UPDATE * 2 = 2\<close>.
\<close>

theorem blocksToUpdate_clamped_counterexample:
  "BLOCKS_TO_UPDATE 1000 32 = 1 \<and>
   blocksToUpdate_clamped 0 (BLOCKS_TO_UPDATE 1000 32) = 4 \<and>
   \<not> blocksToUpdate_clamped 0 (BLOCKS_TO_UPDATE 1000 32) \<le> BLOCKS_TO_UPDATE 1000 32 * 2 \<and>
   fst (Update_budget (corridor_env\<lparr>BLOCK_SIZE := 32\<rparr>) corridor_start) = 4"
  by code_simp

text \<open>The vertex and offset passes of \<open>Update\<close> leave \<open>blockUpdatePenalty\<close> alone.\<close>

lemma CalculateVertex_penalty:
  "blockUpdatePenalty (CalculateVertex env md b d s) = blockUpdatePenalty s"
  by (simp add: CalculateVertex_def Let_def split: prod.split)

lemma CalculateVertices_penalty:
  "blockUpdatePenalty (CalculateVertices env md b s) = blockUpdatePenalty s"
  by (simp add: CalculateVertices_def CalculateVertex_penalty)

lemma Update_vertices_penalty:
  "blockUpdatePenalty (Update_vertices env cs t) = blockUpdatePenalty t"
  by (induction cs arbitrary: t) (simp_all add: Let_def CalculateVertices_penalty)

lemma Update_offsets_penalty:
  "blockUpdatePenalty (Update_offsets env cs t) = blockUpdatePenalty t"
  unfolding Update_offsets_def
  by (induction cs arbitrary: t) (simp_all add: Update_offset_def Let_def)

text \<open>
  Claim C8, amended. The budget before the penalty is the progressive estimate clamped to
  the interval from \<open>max (BLOCKS_TO_UPDATE / 2) 4\<close> to
  \<open>max (BLOCKS_TO_UPDATE * 2) (max (BLOCKS_TO_UPDATE / 2) 4)\<close>; the upper bound is
  \<open>BLOCKS_TO_UPDATE * 2\<close> when \<open>BLOCKS_TO_UPDATE\<close> is at least 2. \<open>BLOCKS_TO_UPDATE\<close> is at
  least 1. On every tick, whatever penalty is left over from earlier ticks, the budget
  of \<open>Update\<close> is fixed by this clamped value \<open>c\<close>: \<open>blocksToUpdate\<close> is \<open>c\<close> when the
  penalty is at most \<open>c\<close> and \<open>max 0 (2 * c - penalty)\<close> otherwise, so it lies between 0
  and \<open>c\<close>; \<open>consumeBlocks\<close> is \<open>blocksToUpdate\<close> rounded up to a multiple of the number
  of move classes (0 when the progressive estimate is 0); the penalty that \<open>Update\<close>
  stores is \<open>max 0 (penalty - c) + consumeBlocks\<close>; and a budget of 0 makes \<open>Update\<close>
  change nothing else.
\<close>

theorem blocksToUpdate_clamped_bounds:
  "blocksToUpdate_clamped p btu =
     Clamp p (max (btu div 2) 4) (max (btu * 2) (max (btu div 2) 4)) \<and>
   max (btu div 2) 4 \<le> blocksToUpdate_clamped p btu \<and>
   blocksToUpdate_clamped p btu \<le> max (btu * 2) (max (btu div 2) 4) \<and>
   (2 \<le> btu \<longrightarrow> blocksToUpdate_clamped p btu \<le> btu * 2) \<and>
   (btu = BLOCKS_TO_UPDATE stu bs \<and> 0 \<le> stu \<longrightarrow> 1 \<le> btu) \<and>
   (let c = blocksToUpdate_clamped (progressiveUpdates env s)
              (BLOCKS_TO_UPDATE (SQUARES_TO_UPDATE env) (BLOCK_SIZE env));
        b = fst (Update_budget env s)
    in b = (if blockUpdatePenalty s \<le> c then c else max 0 (2 * c - blockUpdatePenalty s)) \<and>
       0 \<le> b \<and> b \<le> c \<and>
       fst (snd (Update_budget env s)) =
         (if progressiveUpdates env s \<noteq> 0 then 1 else 0) *
         \<lceil>real_of_int b / real (length (moveDefs env))\<rceil> * int (length (moveDefs env)) \<and>
       snd (snd (Update_budget env s)) =
         max 0 (blockUpdatePenalty s - c) + fst (snd (Update_budget env s)) \<and>
       blockUpdatePenalty (Update env s) = snd (snd (Update_budget env s)) \<and>
       (b = 0 \<longrightarrow> Update env s = s\<lparr>blockUpdatePenalty := snd (snd (Update_budget env s))\<rparr>))"
proof -
  have c: "blocksToUpdate_clamped p btu =
     Clamp p (max (btu div 2) 4) (max (btu * 2) (max (btu div 2) 4))" for p btu
    by (simp add: blocksToUpdate_clamped_def MIN_BLOCKS_TO_UPDATE_def MAX_BLOCKS_TO_UPDATE_def
        drop_bit_eq_div push_bit_eq_mult)
  have lo: "max (btu div 2) 4 \<le> blocksToUpdate_clamped p btu" for p btu
    unfolding c Clamp_def by simp
  have hi: "blocksToUpdate_clamped p btu \<le> max (btu * 2) (max (btu div 2) 4)"
    unfolding c Clamp_def by simp
  have hi2: "2 \<le> btu \<longrightarrow> blocksToUpdate_clamped p btu \<le> btu * 2"
    using hi by auto
  have one: "btu = BLOCKS_TO_UPDATE stu bs \<and> 0 \<le> stu \<longrightarrow> 1 \<le> btu"
    by (auto simp: BLOCKS_TO_UPDATE_def pos_imp_zdiv_nonneg_iff div_int_pos_iff zero_le_mult_iff)
  define cl where "cl = blocksToUpdate_clamped (progressiveUpdates env s)
              (BLOCKS_TO_UPDATE (SQUARES_TO_UPDATE env) (BLOCK_SIZE env))"
  have pos: "4 \<le> cl"
    using lo[of "BLOCKS_TO_UPDATE (SQUARES_TO_UPDATE env) (BLOCK_SIZE env)" "progressiveUpdates env s"]
    unfolding cl_def by simp
  have b: "fst (Update_budget env s) =
      (if blockUpdatePenalty s \<le> cl then cl else max 0 (2 * cl - blockUpdatePenalty s))"
    by (simp add: Update_budget_def Let_def cl_def[symmetric])
  have rng: "0 \<le> fst (Update_budget env s) \<and> fst (Update_budget env s) \<le> cl"
    unfolding b using pos by simp
  have cb: "fst (snd (Update_budget env s)) =
         (if progressiveUpdates env s \<noteq> 0 then 1 else 0) *
         \<lceil>real_of_int (fst (Update_budget env s)) / real (length (moveDefs env))\<rceil> *
         int (length (moveDefs env))"
    by (simp add: Update_budget_def Let_def)
  have pn: "snd (snd (Update_budget env s)) =
         max 0 (blockUpdatePenalty s - cl) + fst (snd (Update_budget env s))"
    by (simp add: Update_budget_def Let_def cl_def[symmetric])
  have up: "blockUpdatePenalty (Update env s) = snd (snd (Update_budget env s))"
    by (simp add: Update_def Let_def Update_vertices_penalty Update_offsets_penalty split: prod.split)
  have z: "fst (Update_budget env s) = 0 \<longrightarrow>
      Update env s = s\<lparr>blockUpdatePenalty := snd (snd (Update_budget env s))\<rparr>"
    by (simp add: Update_def Let_def split: prod.split)
  show ?thesis
    unfolding Let_def cl_def[symmetric]
    by (intro conjI) (rule c lo hi hi2 one b cb pn up z conjunct1[OF rng] conjunct2[OF rng])+
qed


theorem blocksToUpdate_clamped_bounds_witness:
  "4 \<le> blocksToUpdate_clamped 100 4 \<and> blocksToUpdate_clamped 100 4 \<le> 8 \<and>
   1 \<le> BLOCKS_TO_UPDATE 1000 16 \<and>
   fst (Update_budget corridor_env corridor_start) = 4 \<and>
   fst (Update_budget corridor_env (corridor_start\<lparr>blockUpdatePenalty := 5\<rparr>)) = 3 \<and>
   fst (Update_budget corridor_env (corridor_start\<lparr>blockUpdatePenalty := 9\<rparr>)) = 0 \<and>
   Update corridor_env (corridor_start\<lparr>blockUpdatePenalty := 9\<rparr>) =
     corridor_start\<lparr>blockUpdatePenalty := 5\<rparr>"
proof -
  have btu: "BLOCKS_TO_UPDATE 1000 16 = 4" by code_simp
  have cl: "blocksToUpdate_clamped 0
              (BLOCKS_TO_UPDATE (SQUARES_TO_UPDATE corridor_env) (BLOCK_SIZE corridor_env)) = 4"
    by code_simp
  have pr: "progressiveUpdates corridor_env (corridor_start\<lparr>blockUpdatePenalty := q\<rparr>) = 0" for q
    by (simp add: progressiveUpdates_def corridor_start_def float_to_int_def)
  have pen: "blockUpdatePenalty (corridor_start\<lparr>blockUpdatePenalty := q\<rparr>) = q" for q
    by simp
  have s0: "corridor_start\<lparr>blockUpdatePenalty := 0\<rparr> = corridor_start"
    by (simp add: corridor_start_def)
  have a: "4 \<le> blocksToUpdate_clamped 100 4 \<and> blocksToUpdate_clamped 100 4 \<le> 8 \<and>
      1 \<le> BLOCKS_TO_UPDATE 1000 16"
    using blocksToUpdate_clamped_bounds[where p = 100 and btu = 4 and stu = 1000 and bs = 16
        and env = corridor_env and s = corridor_start] btu
    by simp
  have b0: "fst (Update_budget corridor_env corridor_start) = 4"
    using blocksToUpdate_clamped_bounds[where p = 100 and btu = 4 and stu = 1000 and bs = 16
        and env = corridor_env and s = "corridor_start\<lparr>blockUpdatePenalty := 0\<rparr>"]
    unfolding Let_def pen pr cl by (simp add: s0)
  have b5: "fst (Update_budget corridor_env (corridor_start\<lparr>blockUpdatePenalty := 5\<rparr>)) = 3"
    using blocksToUpdate_clamped_bounds[where p = 100 and btu = 4 and stu = 1000 and bs = 16
        and env = corridor_env and s = "corridor_start\<lparr>blockUpdatePenalty := 5\<rparr>"]
    unfolding Let_def pen pr cl by simp
  have b9: "fst (Update_budget corridor_env (corridor_start\<lparr>blockUpdatePenalty := 9\<rparr>)) = 0 \<and>
      Update corridor_env (corridor_start\<lparr>blockUpdatePenalty := 9\<rparr>) =
        corridor_start\<lparr>blockUpdatePenalty := 5\<rparr>"
    using blocksToUpdate_clamped_bounds[where p = 100 and btu = 4 and stu = 1000 and bs = 16
        and env = corridor_env and s = "corridor_start\<lparr>blockUpdatePenalty := 9\<rparr>"]
    unfolding Let_def pen pr cl by simp
  from a b0 b5 b9 show ?thesis by blast
qed

subsection \<open>The obsolete queue\<close>

text \<open>A block position inside the map; the OBSOLETE bit of a block; and the invariant of the
  obsolete queue: no block is queued twice, every queued block is inside the map, and a
  block inside the map is queued exactly when its OBSOLETE bit is set.\<close>

definition inside_map :: "'c Env \<Rightarrow> int2 \<Rightarrow> bool" where
  "inside_map env pos \<longleftrightarrow>
     0 \<le> fst pos \<and> fst pos < fst (nbrOfBlocks env) \<and>
     0 \<le> snd pos \<and> snd pos < snd (nbrOfBlocks env)"

definition is_obsolete :: "'c Env \<Rightarrow> 'c CPathEstimator \<Rightarrow> int2 \<Rightarrow> bool" where
  "is_obsolete env s pos \<longleftrightarrow>
     blockStates_nodeMask s (BlockPosToIdx (fst (nbrOfBlocks env)) pos) AND PATHOPT_OBSOLETE \<noteq> 0"

definition obsolete_inv :: "'c Env \<Rightarrow> 'c CPathEstimator \<Rightarrow> bool" where
  "obsolete_inv env s \<longleftrightarrow>
     distinct (updatedBlocks s) \<and>
     (\<forall>pos \<in> set (updatedBlocks s). inside_map env pos) \<and>
     (\<forall>pos. inside_map env pos \<longrightarrow> (pos \<in> set (updatedBlocks s) \<longleftrightarrow> is_obsolete env s pos))"

lemma BlockPosToIdx_inj:
  assumes "inside_map env a" "inside_map env b"
    and "BlockPosToIdx (fst (nbrOfBlocks env)) a = BlockPosToIdx (fst (nbrOfBlocks env)) b"
  shows "a = b"
proof -
  let ?n = "fst (nbrOfBlocks env)"
  have xa: "0 \<le> fst a" "fst a < ?n" and xb: "0 \<le> fst b" "fst b < ?n"
    using assms(1,2) by (simp_all add: inside_map_def)
  have e: "snd a * ?n + fst a = snd b * ?n + fst b"
    using assms(3) by (simp add: BlockPosToIdx_def)
  have "(snd a * ?n + fst a) mod ?n = fst a" "(snd b * ?n + fst b) mod ?n = fst b"
    using xa xb by simp_all
  with e have x: "fst a = fst b" by simp
  have "(snd a * ?n + fst a) div ?n = snd a" "(snd b * ?n + fst b) div ?n = snd b"
    using xa xb by simp_all
  with e have "snd a = snd b" by simp
  with x show ?thesis by (simp add: prod_eq_iff)
qed

lemma OBSOLETE_set: "(m OR PATHOPT_OBSOLETE) AND PATHOPT_OBSOLETE \<noteq> 0"
  by (simp add: PATHOPT_OBSOLETE_def word_ao_absorbs)

lemma OBSOLETE_clear: "(m AND NOT PATHOPT_OBSOLETE) AND PATHOPT_OBSOLETE = 0"
  by (simp add: word_bw_assocs)

lemma MapChanged_block_suppressed:
  "is_obsolete env s pos \<Longrightarrow> MapChanged_block env pos s = s"
  by (simp add: MapChanged_block_def is_obsolete_def)

lemma MapChanged_block_inv:
  assumes "obsolete_inv env s" "inside_map env pos"
  shows "obsolete_inv env (MapChanged_block env pos s)"
proof (cases "is_obsolete env s pos")
  case True
  with assms(1) show ?thesis by (simp add: MapChanged_block_suppressed)
next
  case False
  let ?n = "fst (nbrOfBlocks env)"
  let ?s' = "s\<lparr>updatedBlocks := updatedBlocks s @ [pos],
                blockStates_nodeMask := (blockStates_nodeMask s)(BlockPosToIdx ?n pos :=
                    blockStates_nodeMask s (BlockPosToIdx ?n pos) OR PATHOPT_OBSOLETE)\<rparr>"
  have r: "MapChanged_block env pos s = ?s'"
    using False by (simp add: MapChanged_block_def is_obsolete_def Let_def)
  have notin: "pos \<notin> set (updatedBlocks s)"
    using assms False unfolding obsolete_inv_def by blast
  have o: "is_obsolete env ?s' p \<longleftrightarrow> (p = pos \<or> is_obsolete env s p)" if "inside_map env p" for p
  proof (cases "p = pos")
    case True
    then show ?thesis using OBSOLETE_set by (simp add: is_obsolete_def)
  next
    case False
    then have "BlockPosToIdx ?n p \<noteq> BlockPosToIdx ?n pos"
      using BlockPosToIdx_inj[OF that assms(2)] by blast
    with False show ?thesis by (simp add: is_obsolete_def)
  qed
  have q: "updatedBlocks ?s' = updatedBlocks s @ [pos]"
    by simp
  have 1: "distinct (updatedBlocks ?s')"
    using assms(1) notin unfolding q obsolete_inv_def by simp
  have 2: "\<forall>p \<in> set (updatedBlocks ?s'). inside_map env p"
    using assms unfolding q obsolete_inv_def by simp
  have 3: "\<forall>p. inside_map env p \<longrightarrow> (p \<in> set (updatedBlocks ?s') \<longleftrightarrow> is_obsolete env ?s' p)"
  proof (intro allI impI)
    fix p assume p: "inside_map env p"
    have "p \<in> set (updatedBlocks s) \<longleftrightarrow> is_obsolete env s p"
      using assms(1) p unfolding obsolete_inv_def by blast
    then show "p \<in> set (updatedBlocks ?s') \<longleftrightarrow> is_obsolete env ?s' p"
      unfolding q o[OF p] by auto
  qed
  show ?thesis
    unfolding r using 1 2 3 unfolding obsolete_inv_def by blast
qed

lemma fold_MapChanged_block_inv:
  assumes "\<forall>pos \<in> set ps. inside_map env pos" "obsolete_inv env s"
  shows "obsolete_inv env (fold (MapChanged_block env) ps s)"
  using assms by (induction ps arbitrary: s) (simp_all add: MapChanged_block_inv)

lemma Clamp_range: "0 \<le> hi \<Longrightarrow> 0 \<le> Clamp v 0 hi \<and> Clamp v 0 hi \<le> hi"
  by (simp add: Clamp_def)

lemma MapChanged_row_inv:
  assumes "\<forall>x \<in> set xs. 0 \<le> x \<and> x < fst (nbrOfBlocks env)" "0 \<le> z" "z < snd (nbrOfBlocks env)"
    "obsolete_inv env s"
  shows "obsolete_inv env (fold (\<lambda>x. MapChanged_block env (x, z)) xs s)"
  using assms by (induction xs arbitrary: s) (simp_all add: MapChanged_block_inv inside_map_def)

lemma MapChanged_rows_inv:
  assumes "\<forall>x \<in> set xs. 0 \<le> x \<and> x < fst (nbrOfBlocks env)"
    "\<forall>z \<in> set zs. 0 \<le> z \<and> z < snd (nbrOfBlocks env)" "obsolete_inv env s"
  shows "obsolete_inv env (fold (\<lambda>z. fold (\<lambda>x. MapChanged_block env (x, z)) xs) zs s)"
  using assms by (induction zs arbitrary: s) (simp_all add: MapChanged_row_inv)

lemma MapChanged_inv:
  assumes "0 < fst (nbrOfBlocks env)" "0 < snd (nbrOfBlocks env)" "obsolete_inv env s"
  shows "obsolete_inv env (MapChanged env x1 z1 x2 z2 s)"
proof -
  define lowerX where "lowerX = Clamp (min x1 x2 div BLOCK_SIZE env) 0 (fst (nbrOfBlocks env) - 1)"
  define upperX where "upperX = Clamp (max x1 x2 div BLOCK_SIZE env) 0 (fst (nbrOfBlocks env) - 1)"
  define lowerZ where "lowerZ = Clamp (min z1 z2 div BLOCK_SIZE env) 0 (snd (nbrOfBlocks env) - 1)"
  define upperZ where "upperZ = Clamp (max z1 z2 div BLOCK_SIZE env) 0 (snd (nbrOfBlocks env) - 1)"
  have x: "0 \<le> fst (nbrOfBlocks env) - 1" and z: "0 \<le> snd (nbrOfBlocks env) - 1"
    using assms by simp_all
  have bx: "0 \<le> lowerX" "upperX < fst (nbrOfBlocks env)"
    using Clamp_range[OF x, of "min x1 x2 div BLOCK_SIZE env"]
      Clamp_range[OF x, of "max x1 x2 div BLOCK_SIZE env"]
    by (simp_all add: lowerX_def upperX_def)
  have bz: "0 \<le> lowerZ" "upperZ < snd (nbrOfBlocks env)"
    using Clamp_range[OF z, of "min z1 z2 div BLOCK_SIZE env"]
      Clamp_range[OF z, of "max z1 z2 div BLOCK_SIZE env"]
    by (simp_all add: lowerZ_def upperZ_def)
  have r: "MapChanged env x1 z1 x2 z2 s =
      fold (\<lambda>z. fold (\<lambda>x. MapChanged_block env (x, z)) (rev [lowerX..upperX])) (rev [lowerZ..upperZ]) s"
    by (simp add: MapChanged_def Let_def lowerX_def upperX_def lowerZ_def upperZ_def)
  show ?thesis
    unfolding r using bx bz assms(3) by (intro MapChanged_rows_inv) auto
qed


subsection \<open>\<open>Update\<close> and the obsolete queue\<close>

lemma CalculateVertex_frame:
  "blockStates_nodeMask (CalculateVertex env md b d s) = blockStates_nodeMask s \<and>
   updatedBlocks (CalculateVertex env md b d s) = updatedBlocks s"
  by (simp add: CalculateVertex_def Let_def split: prod.split)

lemma CalculateVertices_frame:
  "blockStates_nodeMask (CalculateVertices env md b s) = blockStates_nodeMask s \<and>
   updatedBlocks (CalculateVertices env md b s) = updatedBlocks s"
  by (simp add: CalculateVertices_def CalculateVertex_frame)

lemma Update_offsets_frame:
  "blockStates_nodeMask (Update_offsets env cs s) = blockStates_nodeMask s \<and>
   updatedBlocks (Update_offsets env cs s) = updatedBlocks s"
  unfolding Update_offsets_def
  by (induction cs arbitrary: s) (simp_all add: Update_offset_def Let_def)

text \<open>What the serial loop of \<open>Update\<close> does to the node masks.\<close>

definition clear_obsolete :: "'c Env \<Rightarrow> int2 \<Rightarrow> (int \<Rightarrow> 8 word) \<Rightarrow> (int \<Rightarrow> 8 word)" where
  "clear_obsolete env pos m =
     m(BlockPosToIdx (fst (nbrOfBlocks env)) pos :=
         m (BlockPosToIdx (fst (nbrOfBlocks env)) pos) AND NOT PATHOPT_OBSOLETE)"

fun vertices_mask :: "'c Env \<Rightarrow> SingleBlock list \<Rightarrow> (int \<Rightarrow> 8 word) \<Rightarrow> (int \<Rightarrow> 8 word)" where
  "vertices_mask env [] m = m"
| "vertices_mask env (sb # rest) m =
     vertices_mask env rest
       (if rest = [] \<or> pathType (sb_moveDef (hd rest)) \<le> pathType (sb_moveDef sb)
        then clear_obsolete env (sb_blockPos sb) m else m)"

lemma Update_vertices_frame:
  "blockStates_nodeMask (Update_vertices env cs s) = vertices_mask env cs (blockStates_nodeMask s) \<and>
   updatedBlocks (Update_vertices env cs s) = updatedBlocks s"
proof (induction cs arbitrary: s)
  case Nil
  show ?case by simp
next
  case (Cons sb rest)
  show ?case
    by (simp add: Let_def Cons.IH CalculateVertices_frame clear_obsolete_def[symmetric])
qed

definition ascending :: "MoveDef list \<Rightarrow> bool" where
  "ascending mds \<longleftrightarrow> sorted_wrt (\<lambda>a b. pathType a < pathType b) mds"

lemma ascending_last:
  assumes "ascending (m # ms)"
  shows "pathType m \<le> pathType (last (m # ms))"
proof (cases ms)
  case Nil
  then show ?thesis by simp
next
  case (Cons a as)
  then have "last (m # ms) \<in> set ms" by simp
  with assms show ?thesis by (auto simp: ascending_def)
qed

lemma vertices_mask_run:
  assumes "ascending (m # ms)"
    and "rest = [] \<or> pathType (sb_moveDef (hd rest)) \<le> pathType (last (m # ms))"
  shows "vertices_mask env (map (\<lambda>md. \<lparr>sb_blockPos = pos, sb_moveDef = md\<rparr>) (m # ms) @ rest) msk =
         vertices_mask env rest (clear_obsolete env pos msk)"
  using assms
proof (induction ms arbitrary: m)
  case Nil
  then show ?case by simp
next
  case (Cons m' ms')
  from Cons.prems(1) have lt: "pathType m < pathType m'" and asc: "ascending (m' # ms')"
    by (simp_all add: ascending_def)
  from Cons.prems(2) have r: "rest = [] \<or> pathType (sb_moveDef (hd rest)) \<le> pathType (last (m' # ms'))"
    by simp
  from Cons.IH[OF asc r] lt show ?case by simp
qed

lemma vertices_mask_blocks:
  assumes "ascending (filter (\<lambda>md. udRefCount md > 0) (moveDefs env))"
    and "filter (\<lambda>md. udRefCount md > 0) (moveDefs env) \<noteq> []"
  shows "vertices_mask env (concat (map (block_entries env) taken)) msk =
         fold (clear_obsolete env) taken msk"
proof (induction taken arbitrary: msk)
  case Nil
  show ?case by simp
next
  case (Cons p ps)
  obtain a as where act: "filter (\<lambda>md. udRefCount md > 0) (moveDefs env) = a # as"
    using assms(2) by (cases "filter (\<lambda>md. udRefCount md > 0) (moveDefs env)") auto
  let ?rest = "concat (map (block_entries env) ps)"
  have asc: "ascending (a # as)" using assms(1) act by simp
  have hd_rest: "?rest = [] \<or> pathType (sb_moveDef (hd ?rest)) \<le> pathType (last (a # as))"
  proof (cases ps)
    case Nil
    then show ?thesis by simp
  next
    case (Cons p' ps')
    then have "hd ?rest = \<lparr>sb_blockPos = p', sb_moveDef = a\<rparr>"
      by (simp add: block_entries_def act)
    with ascending_last[OF asc] show ?thesis by simp
  qed
  have "vertices_mask env (concat (map (block_entries env) (p # ps))) msk =
        vertices_mask env (map (\<lambda>md. \<lparr>sb_blockPos = p, sb_moveDef = md\<rparr>) (a # as) @ ?rest) msk"
    by (simp add: block_entries_def act)
  also have "\<dots> = vertices_mask env ?rest (clear_obsolete env p msk)"
    by (rule vertices_mask_run[OF asc hd_rest])
  also have "\<dots> = fold (clear_obsolete env) ps (clear_obsolete env p msk)"
    by (rule Cons.IH)
  finally show ?case by simp
qed

lemma clear_obsolete_apply:
  "clear_obsolete env pos m i =
     (if i = BlockPosToIdx (fst (nbrOfBlocks env)) pos then m i AND NOT PATHOPT_OBSOLETE else m i)"
  by (simp add: clear_obsolete_def)

lemma fold_clear_obsolete:
  "fold (clear_obsolete env) taken msk i =
     (if i \<in> BlockPosToIdx (fst (nbrOfBlocks env)) ` set taken
      then msk i AND NOT PATHOPT_OBSOLETE else msk i)"
proof (induction taken arbitrary: msk)
  case Nil
  show ?case by simp
next
  case (Cons p ps)
  have "fold (clear_obsolete env) (p # ps) msk i =
        fold (clear_obsolete env) ps (clear_obsolete env p msk) i"
    by simp
  also have "\<dots> =
     (if i \<in> BlockPosToIdx (fst (nbrOfBlocks env)) ` set ps
      then clear_obsolete env p msk i AND NOT PATHOPT_OBSOLETE else clear_obsolete env p msk i)"
    by (rule Cons.IH)
  also have "\<dots> =
     (if i \<in> BlockPosToIdx (fst (nbrOfBlocks env)) ` set (p # ps)
      then msk i AND NOT PATHOPT_OBSOLETE else msk i)"
    unfolding clear_obsolete_apply by (simp add: word_bw_assocs)
  finally show ?case .
qed

lemma consume_split:
  assumes "\<forall>p \<in> set q. nodeMask (BlockPosToIdx (fst (nbrOfBlocks env)) p) AND PATHOPT_OBSOLETE \<noteq> 0"
  shows "\<exists>taken. q = taken @ snd (consume env nodeMask btu q acc) \<and>
           fst (consume env nodeMask btu q acc) = acc @ concat (map (block_entries env) taken)"
  using assms
proof (induction q arbitrary: acc)
  case Nil
  show ?case by simp
next
  case (Cons p q)
  show ?case
  proof (cases "int (length acc) \<ge> btu")
    case True
    with Cons.prems have "consume env nodeMask btu (p # q) acc = (acc, p # q)"
      by simp
    then show ?thesis by simp
  next
    case False
    with Cons.prems have c: "consume env nodeMask btu (p # q) acc =
        consume env nodeMask btu q (acc @ block_entries env p)"
      by simp
    from Cons.prems have "\<forall>p \<in> set q. nodeMask (BlockPosToIdx (fst (nbrOfBlocks env)) p) AND PATHOPT_OBSOLETE \<noteq> 0"
      by simp
    from Cons.IH[OF this, of "acc @ block_entries env p"]
    obtain taken where t: "q = taken @ snd (consume env nodeMask btu q (acc @ block_entries env p))"
      "fst (consume env nodeMask btu q (acc @ block_entries env p)) =
         (acc @ block_entries env p) @ concat (map (block_entries env) taken)"
      by blast
    have "p # q = (p # taken) @ snd (consume env nodeMask btu (p # q) acc)"
      unfolding c using t(1) by simp
    moreover have "fst (consume env nodeMask btu (p # q) acc) =
        acc @ concat (map (block_entries env) (p # taken))"
      unfolding c t(2) by simp
    ultimately show ?thesis by blast
  qed
qed

lemma consume_only_obsolete:
  "sb \<in> set (fst (consume env nodeMask btu q acc)) \<Longrightarrow>
     sb \<in> set acc \<or>
     (sb_blockPos sb \<in> set q \<and>
      nodeMask (BlockPosToIdx (fst (nbrOfBlocks env)) (sb_blockPos sb)) AND PATHOPT_OBSOLETE \<noteq> 0)"
proof (induction q arbitrary: acc)
  case Nil
  then show ?case by simp
next
  case (Cons p q)
  show ?case
  proof (cases "nodeMask (BlockPosToIdx (fst (nbrOfBlocks env)) p) AND PATHOPT_OBSOLETE = 0")
    case True
    with Cons.prems have "sb \<in> set (fst (consume env nodeMask btu q acc))" by simp
    from Cons.IH[OF this] show ?thesis by auto
  next
    case set: False
    show ?thesis
    proof (cases "int (length acc) \<ge> btu")
      case True
      with set Cons.prems show ?thesis by simp
    next
      case False
      with set Cons.prems have "sb \<in> set (fst (consume env nodeMask btu q (acc @ block_entries env p)))"
        by simp
      from Cons.IH[OF this] set show ?thesis
        by (auto simp: block_entries_def)
    qed
  qed
qed


text \<open>The move classes are handed out in strictly ascending \<open>pathType\<close>, and one of them
  is in use.\<close>

definition moveDefs_ok :: "'c Env \<Rightarrow> bool" where
  "moveDefs_ok env \<longleftrightarrow>
     ascending (moveDefs env) \<and> (\<exists>md \<in> set (moveDefs env). udRefCount md > 0)"

lemma moveDefs_ok_active:
  assumes "moveDefs_ok env"
  shows "ascending (filter (\<lambda>md. udRefCount md > 0) (moveDefs env))"
    and "filter (\<lambda>md. udRefCount md > 0) (moveDefs env) \<noteq> []"
proof -
  show "ascending (filter (\<lambda>md. udRefCount md > 0) (moveDefs env))"
    using assms unfolding moveDefs_ok_def ascending_def by (simp add: sorted_wrt_filter)
  show "filter (\<lambda>md. udRefCount md > 0) (moveDefs env) \<noteq> []"
    using assms unfolding moveDefs_ok_def by (auto simp: filter_empty_conv)
qed

lemma obsolete_inv_cong:
  assumes "updatedBlocks t = updatedBlocks s" "blockStates_nodeMask t = blockStates_nodeMask s"
  shows "obsolete_inv env t = obsolete_inv env s"
  using assms by (simp add: obsolete_inv_def is_obsolete_def)

lemma Update_result:
  "Update env s = s\<lparr>blockUpdatePenalty := snd (snd (Update_budget env s))\<rparr> \<or>
   (updatedBlocks s \<noteq> [] \<and>
    updatedBlocks (Update env s) =
      snd (consume env (blockStates_nodeMask s) (fst (Update_budget env s)) (updatedBlocks s) []) \<and>
    blockStates_nodeMask (Update env s) =
      vertices_mask env
        (fst (consume env (blockStates_nodeMask s) (fst (Update_budget env s)) (updatedBlocks s) []))
        (blockStates_nodeMask s))"
proof -
  obtain b c pen where bud: "Update_budget env s = (b, c, pen)"
    by (cases "Update_budget env s") auto
  obtain cs q where con: "consume env (blockStates_nodeMask s) b (updatedBlocks s) [] = (cs, q)"
    by (cases "consume env (blockStates_nodeMask s) b (updatedBlocks s) []") auto
  show ?thesis
    by (simp add: Update_def bud con Let_def Update_vertices_frame Update_offsets_frame)
qed

lemma Update_inv:
  assumes "moveDefs_ok env" "obsolete_inv env s"
  shows "obsolete_inv env (Update env s)"
proof -
  let ?n = "fst (nbrOfBlocks env)"
  let ?b = "fst (Update_budget env s)"
  let ?c = "consume env (blockStates_nodeMask s) ?b (updatedBlocks s) []"
  from Update_result[of env s] show ?thesis
  proof
    assume "Update env s = s\<lparr>blockUpdatePenalty := snd (snd (Update_budget env s))\<rparr>"
    then show ?thesis
      using assms(2) by (simp add: obsolete_inv_cong[of "s\<lparr>blockUpdatePenalty := _\<rparr>" s])
  next
    assume r: "updatedBlocks s \<noteq> [] \<and> updatedBlocks (Update env s) = snd ?c \<and>
       blockStates_nodeMask (Update env s) = vertices_mask env (fst ?c) (blockStates_nodeMask s)"
    have dist: "distinct (updatedBlocks s)"
      and ins: "\<forall>p \<in> set (updatedBlocks s). inside_map env p"
      and iff: "\<forall>p. inside_map env p \<longrightarrow> (p \<in> set (updatedBlocks s) \<longleftrightarrow> is_obsolete env s p)"
      using assms(2) unfolding obsolete_inv_def by blast+
    have bits: "\<forall>p \<in> set (updatedBlocks s).
        blockStates_nodeMask s (BlockPosToIdx ?n p) AND PATHOPT_OBSOLETE \<noteq> 0"
      using ins iff unfolding is_obsolete_def by blast
    from consume_split[OF bits, of ?b "[]"]
    obtain taken where t: "updatedBlocks s = taken @ snd ?c"
      "fst ?c = concat (map (block_entries env) taken)"
      by auto
    have q: "updatedBlocks (Update env s) = snd ?c"
      using r by blast
    have m: "blockStates_nodeMask (Update env s) =
        fold (clear_obsolete env) taken (blockStates_nodeMask s)"
      using r vertices_mask_blocks[OF moveDefs_ok_active[OF assms(1)]] by (simp add: t(2))
    have d: "distinct (taken @ snd ?c)" and i: "\<forall>p \<in> set (taken @ snd ?c). inside_map env p"
      using dist ins t(1) by simp_all
    have 1: "distinct (updatedBlocks (Update env s))"
      unfolding q using d by simp
    have 2: "\<forall>p \<in> set (updatedBlocks (Update env s)). inside_map env p"
      unfolding q using i by simp
    have 3: "\<forall>p. inside_map env p \<longrightarrow>
        (p \<in> set (updatedBlocks (Update env s)) \<longleftrightarrow> is_obsolete env (Update env s) p)"
    proof (intro allI impI)
      fix p assume p: "inside_map env p"
      have old: "p \<in> set taken \<or> p \<in> set (snd ?c) \<longleftrightarrow> is_obsolete env s p"
        using iff p t(1) by (metis Un_iff set_append)
      have img: "BlockPosToIdx ?n p \<in> BlockPosToIdx ?n ` set taken \<longleftrightarrow> p \<in> set taken"
      proof
        assume "BlockPosToIdx ?n p \<in> BlockPosToIdx ?n ` set taken"
        then obtain p' where p': "p' \<in> set taken" "BlockPosToIdx ?n p = BlockPosToIdx ?n p'"
          by blast
        with i have "inside_map env p'" by simp
        from BlockPosToIdx_inj[OF p this p'(2)] p'(1) show "p \<in> set taken" by simp
      qed simp
      show "p \<in> set (updatedBlocks (Update env s)) \<longleftrightarrow> is_obsolete env (Update env s) p"
      proof (cases "p \<in> set taken")
        case True
        then have "p \<notin> set (snd ?c)" using d by auto
        moreover have "\<not> is_obsolete env (Update env s) p"
          using True img by (simp add: is_obsolete_def m fold_clear_obsolete OBSOLETE_clear)
        ultimately show ?thesis unfolding q by simp
      next
        case False
        then have "is_obsolete env (Update env s) p = is_obsolete env s p"
          using img by (simp add: is_obsolete_def m fold_clear_obsolete)
        with old False show ?thesis unfolding q by simp
      qed
    qed
    show ?thesis
      unfolding obsolete_inv_def using 1 2 3 by blast
  qed
qed

lemma Update_consumed_obsolete:
  assumes "sb \<in> set (Update_consumed env s)"
  shows "sb_blockPos sb \<in> set (updatedBlocks s) \<and> is_obsolete env s (sb_blockPos sb)"
proof -
  obtain b c pen where bud: "Update_budget env s = (b, c, pen)"
    by (cases "Update_budget env s") auto
  from assms have "sb \<in> set (fst (consume env (blockStates_nodeMask s) b (updatedBlocks s) []))"
    by (simp add: Update_consumed_def bud split: if_splits)
  from consume_only_obsolete[OF this] show ?thesis
    by (simp add: is_obsolete_def)
qed


lemma obsolete_inv_initial:
  assumes "updatedBlocks s = []" "\<forall>i. blockStates_nodeMask s i AND PATHOPT_OBSOLETE = 0"
  shows "obsolete_inv env s"
  using assms by (simp add: obsolete_inv_def is_obsolete_def)

text \<open>The corridor with its one move class unused, and an estimator with an empty queue
  and clean masks.\<close>

definition idle_env :: "real Env" where
  "idle_env = corridor_env\<lparr>moveDefs := [walker\<lparr>udRefCount := 0\<rparr>]\<rparr>"

definition fresh_estimator :: "real CPathEstimator" where
  "fresh_estimator = corridor_start\<lparr>blockStates_nodeMask := (\<lambda>i. 0)\<rparr>"

text \<open>
  The obsolete-queue invariant where one move class is in use. It holds of an estimator
  with an empty queue and no OBSOLETE bit; \<open>MapChanged\<close> keeps it (on a map with at least
  one block); \<open>Update\<close> keeps it when the move classes come in strictly ascending
  \<open>pathType\<close> and one of them has a nonzero reference count. \<open>MapChanged\<close> leaves a
  block alone whose OBSOLETE bit is set. \<open>Update\<close> processes only blocks it finds in the
  queue with the bit set, so none whose bit is clear.
\<close>

theorem obsolete_queue_invariant:
  "(updatedBlocks s0 = [] \<and> (\<forall>i. blockStates_nodeMask s0 i AND PATHOPT_OBSOLETE = 0) \<longrightarrow>
      obsolete_inv env s0) \<and>
   (0 < fst (nbrOfBlocks env) \<and> 0 < snd (nbrOfBlocks env) \<and> obsolete_inv env s \<longrightarrow>
      obsolete_inv env (MapChanged env x1 z1 x2 z2 s)) \<and>
   (moveDefs_ok env \<and> obsolete_inv env s \<longrightarrow> obsolete_inv env (Update env s)) \<and>
   (is_obsolete env s pos \<longrightarrow> MapChanged_block env pos s = s) \<and>
   (\<forall>sb \<in> set (Update_consumed env s).
      sb_blockPos sb \<in> set (updatedBlocks s) \<and> is_obsolete env s (sb_blockPos sb)) \<and>
   (\<not> is_obsolete env s pos \<longrightarrow> pos \<notin> sb_blockPos ` set (Update_consumed env s))"
  using obsolete_inv_initial[of s0 env] MapChanged_inv[of env s x1 z1 x2 z2] Update_inv[of env s]
    MapChanged_block_suppressed[of env s pos] Update_consumed_obsolete[of _ env s]
  by blast

theorem obsolete_queue_invariant_witness:
  "obsolete_inv corridor_env (Update corridor_env (MapChanged corridor_env 0 0 31 0 fresh_estimator)) \<and>
   updatedBlocks (MapChanged corridor_env 0 0 31 0 fresh_estimator) = [(1, 0), (0, 0)] \<and>
   updatedBlocks (Update corridor_env (MapChanged corridor_env 0 0 31 0 fresh_estimator)) = [] \<and>
   \<not> is_obsolete corridor_env (Update corridor_env (MapChanged corridor_env 0 0 31 0 fresh_estimator)) (0, 0) \<and>
   \<not> is_obsolete corridor_env (Update corridor_env (MapChanged corridor_env 0 0 31 0 fresh_estimator)) (1, 0)"
proof -
  let ?s1 = "MapChanged corridor_env 0 0 31 0 fresh_estimator"
  have i: "updatedBlocks fresh_estimator = [] \<and>
      (\<forall>i. blockStates_nodeMask fresh_estimator i AND PATHOPT_OBSOLETE = 0)"
    by (simp add: fresh_estimator_def corridor_start_def)
  have n: "0 < fst (nbrOfBlocks corridor_env) \<and> 0 < snd (nbrOfBlocks corridor_env)"
    by (simp add: corridor_env_def)
  have ok: "moveDefs_ok corridor_env"
    by (simp add: moveDefs_ok_def ascending_def corridor_env_def walker_def)
  have 0: "obsolete_inv corridor_env fresh_estimator"
    using obsolete_queue_invariant[of fresh_estimator corridor_env] i by blast
  have 1: "obsolete_inv corridor_env ?s1"
    using obsolete_queue_invariant[of _ corridor_env fresh_estimator 0 0 31 0] n 0 by blast
  have 2: "obsolete_inv corridor_env (Update corridor_env ?s1)"
    using obsolete_queue_invariant[of _ corridor_env ?s1] ok 1 by blast
  have 3: "updatedBlocks ?s1 = [(1, 0), (0, 0)]"
    by code_simp
  have 4: "updatedBlocks (Update corridor_env ?s1) = []"
    by code_simp
  have 5: "(0, 0) \<notin> set (updatedBlocks (Update corridor_env ?s1))"
    "(1, 0) \<notin> set (updatedBlocks (Update corridor_env ?s1))"
    unfolding 4 by simp_all
  have 6: "inside_map corridor_env (0, 0)" "inside_map corridor_env (1, 0)"
    by (simp_all add: inside_map_def corridor_env_def)
  from 2 5 6 have 7: "\<not> is_obsolete corridor_env (Update corridor_env ?s1) (0, 0)"
    "\<not> is_obsolete corridor_env (Update corridor_env ?s1) (1, 0)"
    unfolding obsolete_inv_def by blast+
  from 2 3 4 7 show ?thesis by blast
qed

text \<open>
  Claim C7 (does not hold of the code). When no move class has a nonzero reference count,
  \<open>Update\<close> pops an obsolete block from the queue without adding an entry to
  \<open>consumedBlocks\<close>, so the block's OBSOLETE bit is never cleared: after \<open>MapChanged\<close> on
  block \<open>(0, 0)\<close> and one \<open>Update\<close>, the block is inside the map, its bit is set and the
  queue is empty; a later \<open>MapChanged\<close> on the block does not queue it again. In every
  other case the invariant is kept (\<open>obsolete_queue_invariant\<close>).
\<close>

theorem Update_drops_obsolete_block:
  "updatedBlocks (MapChanged idle_env 0 0 0 0 fresh_estimator) = [(0, 0)] \<and>
   is_obsolete idle_env (MapChanged idle_env 0 0 0 0 fresh_estimator) (0, 0) \<and>
   inside_map idle_env (0, 0) \<and>
   updatedBlocks (Update idle_env (MapChanged idle_env 0 0 0 0 fresh_estimator)) = [] \<and>
   is_obsolete idle_env (Update idle_env (MapChanged idle_env 0 0 0 0 fresh_estimator)) (0, 0) \<and>
   updatedBlocks (MapChanged idle_env 0 0 0 0
      (Update idle_env (MapChanged idle_env 0 0 0 0 fresh_estimator))) = []"
  by code_simp


end
